theory Spec2Isabelle
  imports Main
begin

section \<open>The request-authorization core of wg-portal (cmd/wg-portal/ui/handler.go)\<close>

subsection \<open>Errors\<close>

text \<open>
  Go errors as values. \<open>errors.New\<close> and \<open>errors.Errorf\<close> build an error from its
  message; \<open>errors.WithMessage\<close> wraps a cause with a message in front of it.
  \<open>err.Error()\<close> is \<open>Error_string\<close>.
\<close>

datatype error = New string | WithMessage error string

fun Error_string :: "error \<Rightarrow> string" where
  "Error_string (New msg) = msg"
| "Error_string (WithMessage cause msg) = msg @ '': '' @ Error_string cause"

definition StatusSeeOther :: int where "StatusSeeOther = 303"
definition StatusUnauthorized :: int where "StatusUnauthorized = 401"
definition StatusNotFound :: int where "StatusNotFound = 404"

text \<open>A parsed URL (\<open>url.URL\<close>); \<open>setupAuthProviders\<close> reads and replaces its path.\<close>

record url =
  Scheme :: string
  Host :: string
  Path :: string

subsection \<open>Session data and the request context\<close>

text \<open>The error payload that \<open>HandleError\<close> builds (fields as written there).\<close>

record ErrorData =
  Message :: string
  Details :: string
  Code :: int
  Path :: string

text \<open>
  Modelled from the spec: the \<open>SessionData\<close> struct, declared in a file of the package
  that is not among the sources. The fields are those the specification lists for a
  Session, under the names handler.go uses for them; the zero value is Go's.
\<close>

record SessionData =
  LoggedIn :: bool
  IsAdmin :: bool
  UserIdentifier :: string
  DeepLink :: string
  Error :: "ErrorData option"

definition zeroSessionData :: SessionData where
  "zeroSessionData =
     \<lparr>LoggedIn = False, IsAdmin = False, UserIdentifier = [], DeepLink = [], Error = None\<rparr>"

text \<open>What a handler rendered to the client: \<open>c.Redirect(code, location)\<close> or
  \<open>c.String(code, body)\<close>.\<close>

datatype Response = RedirectResponse int string | StringResponse int string

text \<open>
  The part of \<open>gin.Context\<close> the handlers touch: the request (\<open>c.Request.RequestURI\<close>,
  \<open>c.Request.URL.Path\<close>), the client's session values by session identifier, the position
  \<open>index\<close> in the handler chain, and the responses written so far, in order.
\<close>

record Context =
  RequestURI :: string
  URLPath :: string
  sessions :: "string \<rightharpoonup> SessionData"
  index :: int
  written :: "Response list"

text \<open>A gin handler. \<open>c.Next()\<close> is a method of the context that runs the handlers after
  the current one; the model hands it to the handler as its first argument.\<close>

type_synonym HandlerFunc = "(Context \<Rightarrow> Context) \<Rightarrow> Context \<Rightarrow> Context"

definition abortIndex :: int where "abortIndex = 63"

definition c_Abort :: "Context \<Rightarrow> Context" where
  "c_Abort c = c\<lparr>index := abortIndex\<rparr>"

definition c_IsAborted :: "Context \<Rightarrow> bool" where
  "c_IsAborted c = (abortIndex \<le> index c)"

definition c_Redirect :: "int \<Rightarrow> string \<Rightarrow> Context \<Rightarrow> Context" where
  "c_Redirect code location c = c\<lparr>written := written c @ [RedirectResponse code location]\<rparr>"

definition c_String :: "int \<Rightarrow> string \<Rightarrow> Context \<Rightarrow> Context" where
  "c_String code body c = c\<lparr>written := written c @ [StringResponse code body]\<rparr>"

text \<open>
  gin's \<open>Next\<close>: \<open>c.index++; for c.index < len(c.handlers) { c.handlers[c.index](c); c.index++ }\<close>.
  \<open>run_handlers hs c\<close> is the loop at position \<open>index c\<close>, with \<open>hs\<close> the handlers from
  that position on. The \<open>Next\<close> a handler is given runs the handlers after it if the index
  is still at the handler's own position; if \<open>Abort\<close> or an earlier \<open>Next\<close> has moved it
  (in gin to \<open>abortIndex\<close> or to the length of the chain, and gin registers no chain of
  \<open>abortIndex\<close> handlers or more), \<open>Next\<close> increments it and runs nothing. When the handler
  has returned, the loop goes on with its successor exactly if the index is where it
  was. The index is an \<open>int8\<close> in gin; the model does not wrap it, which takes more than
  sixty calls of \<open>Next\<close> past the end of a chain to observe.
\<close>

fun run_handlers :: "HandlerFunc list \<Rightarrow> Context \<Rightarrow> Context" where
  "run_handlers [] c = c"
| "run_handlers (f # fs) c =
     (let i = index c;
          c1 = f (\<lambda>d. if index d = i then run_handlers fs (d\<lparr>index := i + 1\<rparr>)
                      else d\<lparr>index := index d + 1\<rparr>) c;
          c2 = c1\<lparr>index := index c1 + 1\<rparr>
      in if index c2 = i + 1 then run_handlers fs c2 else c2)"

text \<open>\<open>c.Next()\<close> as called at position \<open>i\<close> of a chain, \<open>fs\<close> being the handlers after
  that position.\<close>

definition c_Next :: "int \<Rightarrow> HandlerFunc list \<Rightarrow> Context \<Rightarrow> Context" where
  "c_Next i fs d =
     (if index d = i then run_handlers fs (d\<lparr>index := i + 1\<rparr>)
      else d\<lparr>index := index d + 1\<rparr>)"

text \<open>The engine serving a request on a route with handler chain \<open>hs\<close>: the context is
  reset (\<open>index = -1\<close>, nothing written yet) and \<open>Next\<close> is called.\<close>

definition serve :: "HandlerFunc list \<Rightarrow> Context \<Rightarrow> Context" where
  "serve hs c = c_Next (- 1) hs (c\<lparr>index := - 1, written := []\<rparr>)"

text \<open>
  A handler written against gin's API: it reads the context (\<open>Look\<close>), changes what
  of it is within its reach (\<open>Do\<close>: the index is a private field of the context, so
  what the handler does to the context leaves the index as it is), and calls \<open>c.Next()\<close> and
  \<open>c.Abort()\<close>, in any order and number.
\<close>

datatype body =
    Done
  | Do "Context \<Rightarrow> Context" body
  | CallNext body
  | CallAbort body
  | Look "Context \<Rightarrow> body"

primrec runBody :: "body \<Rightarrow> HandlerFunc" where
  "runBody Done = (\<lambda>next c. c)"
| "runBody (Do e b) = (\<lambda>next c. runBody b next ((e c)\<lparr>index := index c\<rparr>))"
| "runBody (CallNext b) = (\<lambda>next c. runBody b next (next c))"
| "runBody (CallAbort b) = (\<lambda>next c. runBody b next (c_Abort c))"
| "runBody (Look k) = (\<lambda>next c. runBody (k c) next c)"

subsection \<open>The session store\<close>

text \<open>The \<open>SessionStore\<close> interface held by the handler in its field \<open>session\<close>.\<close>

record SessionStore =
  GetData :: "Context \<Rightarrow> SessionData"
  SetData :: "Context \<Rightarrow> SessionData \<Rightarrow> Context"
  DestroyData :: "Context \<Rightarrow> Context"

text \<open>
  Modelled from the spec: \<open>GinSessionStore\<close>, the implementation of the interface that
  \<open>NewHandler\<close> installs; its methods are outside the sources. After the specification's
  contract of the Session Store: \<open>GetData\<close> never fails and returns a zero-value session
  if none exists, \<open>SetData\<close> persists the session, \<open>DestroyData\<close> clears it.
\<close>

definition GinSessionStore :: "string \<Rightarrow> SessionStore" where
  "GinSessionStore sessionIdentifier =
     \<lparr>GetData = (\<lambda>c. case sessions c sessionIdentifier of
                        None \<Rightarrow> zeroSessionData
                      | Some data \<Rightarrow> data),
      SetData = (\<lambda>c data. c\<lparr>sessions := (sessions c)(sessionIdentifier \<mapsto> data)\<rparr>),
      DestroyData = (\<lambda>c. c\<lparr>sessions := (sessions c)(sessionIdentifier := None)\<rparr>)\<rparr>"

subsection \<open>Configuration, collaborators and the handler\<close>

record OpenIDConnectProvider =
  ProviderName :: string

record OAuthProvider =
  ProviderName :: string

record LdapProvider =
  URL :: string

record AuthConfig =
  OpenIDConnect :: "OpenIDConnectProvider list"
  OAuth :: "OAuthProvider list"
  Ldap :: "LdapProvider list"

record CoreConfig =
  ExternalUrl :: string
  SessionSecret :: string

record Config =
  Core :: CoreConfig
  Auth :: AuthConfig

text \<open>\<open>core.Backend\<close>, of which the handler calls \<open>GetActiveUser\<close> only.\<close>

record 'u Backend =
  GetActiveUser :: "string \<Rightarrow> error + 'u"

text \<open>
  The library functions and the authenticator constructors of package authentication
  that \<open>setupAuthProviders\<close> calls. They are parameters of the model: every theorem holds
  for whatever they compute. A constructor that runs into the setup timeout returns an
  error like any other failure.
\<close>

record ('a, 'l) library =
  strings_ToLower :: "string \<Rightarrow> string"
  url_Parse :: "string \<Rightarrow> error + url"
  url_String :: "url \<Rightarrow> string"
  path_Join :: "string list \<Rightarrow> string"
  NewOidcAuthenticator :: "string \<Rightarrow> OpenIDConnectProvider \<Rightarrow> error + 'a"
  NewPlainOauthAuthenticator :: "string \<Rightarrow> OAuthProvider \<Rightarrow> error + 'a"
  NewLdapAuthenticator :: "LdapProvider \<Rightarrow> error + 'l"

record ('u, 'a, 'l) handler =
  config :: Config
  session :: SessionStore
  backend :: "'u Backend"
  oauthAuthenticators :: "string \<rightharpoonup> 'a"
  ldapAuthenticators :: "string \<rightharpoonup> 'l"

subsection \<open>setupAuthProviders and NewHandler\<close>

definition already_registered :: "string \<Rightarrow> error" where
  "already_registered providerId =
     New (''auth provider with name '' @ providerId @ '' is already registerd'')"

text \<open>The three loops. Each returns the handler as the loop left it, and the error it
  returned with, if any: the Go method updates the maps of \<open>h\<close> in place and returns from
  inside the loop.\<close>

fun setupOpenIDConnect ::
  "('a, 'l) library \<Rightarrow> url \<Rightarrow> OpenIDConnectProvider list \<Rightarrow> ('u, 'a, 'l) handler
     \<Rightarrow> ('u, 'a, 'l) handler \<times> error option" where
  "setupOpenIDConnect L extUrl [] h = (h, None)"
| "setupOpenIDConnect L extUrl (providerCfg # cfgs) h =
     (let providerId = strings_ToLower L (OpenIDConnectProvider.ProviderName providerCfg) in
      if oauthAuthenticators h providerId \<noteq> None then (h, Some (already_registered providerId))
      else
        let redirectUrl = extUrl\<lparr>url.Path :=
              path_Join L [url.Path extUrl, ''/auth/login/'', providerId, ''/callback'']\<rparr>
        in case NewOidcAuthenticator L (url_String L redirectUrl) providerCfg of
             Inl err \<Rightarrow>
               (h, Some (WithMessage err (''failed to setup oidc authentication provider '' @
                            OpenIDConnectProvider.ProviderName providerCfg)))
           | Inr authenticator \<Rightarrow>
               setupOpenIDConnect L extUrl cfgs
                 (h\<lparr>oauthAuthenticators := (oauthAuthenticators h)(providerId \<mapsto> authenticator)\<rparr>))"

fun setupOAuth ::
  "('a, 'l) library \<Rightarrow> url \<Rightarrow> OAuthProvider list \<Rightarrow> ('u, 'a, 'l) handler
     \<Rightarrow> ('u, 'a, 'l) handler \<times> error option" where
  "setupOAuth L extUrl [] h = (h, None)"
| "setupOAuth L extUrl (providerCfg # cfgs) h =
     (let providerId = strings_ToLower L (OAuthProvider.ProviderName providerCfg) in
      if oauthAuthenticators h providerId \<noteq> None then (h, Some (already_registered providerId))
      else
        let redirectUrl = extUrl\<lparr>url.Path :=
              path_Join L [url.Path extUrl, ''/auth/login/'', providerId, ''/callback'']\<rparr>
        in case NewPlainOauthAuthenticator L (url_String L redirectUrl) providerCfg of
             Inl err \<Rightarrow>
               (h, Some (WithMessage err (''failed to setup oauth authentication provider '' @
                            providerId)))
           | Inr authenticator \<Rightarrow>
               setupOAuth L extUrl cfgs
                 (h\<lparr>oauthAuthenticators := (oauthAuthenticators h)(providerId \<mapsto> authenticator)\<rparr>))"

fun setupLdap ::
  "('a, 'l) library \<Rightarrow> LdapProvider list \<Rightarrow> ('u, 'a, 'l) handler
     \<Rightarrow> ('u, 'a, 'l) handler \<times> error option" where
  "setupLdap L [] h = (h, None)"
| "setupLdap L (providerCfg # cfgs) h =
     (let providerId = strings_ToLower L (URL providerCfg) in
      if ldapAuthenticators h providerId \<noteq> None then (h, Some (already_registered providerId))
      else
        case NewLdapAuthenticator L providerCfg of
          Inl err \<Rightarrow>
            (h, Some (WithMessage err (''failed to setup ldap authentication provider '' @
                         providerId)))
        | Inr authenticator \<Rightarrow>
            setupLdap L cfgs
              (h\<lparr>ldapAuthenticators := (ldapAuthenticators h)(providerId \<mapsto> authenticator)\<rparr>))"

definition setupAuthProviders ::
  "('a, 'l) library \<Rightarrow> ('u, 'a, 'l) handler \<Rightarrow> ('u, 'a, 'l) handler \<times> error option" where
  "setupAuthProviders L h =
     (case url_Parse L (ExternalUrl (Core (config h))) of
        Inl err \<Rightarrow> (h, Some (WithMessage err ''failed to parse external url''))
      | Inr extUrl \<Rightarrow>
          (case setupOpenIDConnect L extUrl (OpenIDConnect (Auth (config h))) h of
             (h1, Some err) \<Rightarrow> (h1, Some err)
           | (h1, None) \<Rightarrow>
               (case setupOAuth L extUrl (OAuth (Auth (config h1))) h1 of
                  (h2, Some err) \<Rightarrow> (h2, Some err)
                | (h2, None) \<Rightarrow> setupLdap L (Ldap (Auth (config h2))) h2)))"

text \<open>\<open>NewHandler\<close> returns the handler or the error, never both: on an error of the
  setup the handler built so far is dropped.\<close>

definition NewHandler ::
  "('a, 'l) library \<Rightarrow> Config \<Rightarrow> 'u Backend \<Rightarrow> error + ('u, 'a, 'l) handler" where
  "NewHandler L cfg be =
     (let h = \<lparr>config = cfg,
               session = GinSessionStore ''wgPortalSession'',
               backend = be,
               oauthAuthenticators = Map.empty,
               ldapAuthenticators = Map.empty\<rparr>
      in case setupAuthProviders L h of
           (h', Some err) \<Rightarrow> Inl (WithMessage err ''failed to setup authentication providers'')
         | (h', None) \<Rightarrow> Inr h')"

subsection \<open>The authorization middleware and the error reporter\<close>

definition isUserStillValid :: "('u, 'a, 'l) handler \<Rightarrow> string \<Rightarrow> bool" where
  "isUserStillValid h ident =
     (case GetActiveUser (backend h) ident of Inl err \<Rightarrow> False | Inr user \<Rightarrow> True)"

definition authenticationMiddleware :: "('u, 'a, 'l) handler \<Rightarrow> string \<Rightarrow> HandlerFunc" where
  "authenticationMiddleware h scope next c =
     (let sess = GetData (session h) c in
      if \<not> LoggedIn sess then
        c_Redirect StatusSeeOther ''/auth/login''
          (c_Abort (SetData (session h) c (sess\<lparr>DeepLink := RequestURI c\<rparr>)))
      else if scope = ''admin'' \<and> \<not> IsAdmin sess then
        c_String StatusUnauthorized ''unauthorized: not enough permissions'' (c_Abort c)
      else if scope \<noteq> [] \<and> \<not> IsAdmin sess then
        c_String StatusUnauthorized ''unauthorized: not enough permissions'' (c_Abort c)
      else if \<not> isUserStillValid h (UserIdentifier sess) then
        c_String StatusUnauthorized ''unauthorized: session no longer available''
          (c_Abort (DestroyData (session h) c))
      else next c)"

definition HandleError ::
  "('u, 'a, 'l) handler \<Rightarrow> Context \<Rightarrow> int \<Rightarrow> error \<Rightarrow> string \<Rightarrow> Context" where
  "HandleError h c code err details =
     (let currentSession = GetData (session h) c;
          currentSession = currentSession\<lparr>Error := Some
              \<lparr>Message = Error_string err, Details = details, Code = code, Path = URLPath c\<rparr>\<rparr>;
          currentSession =
            (if code = StatusNotFound
             then currentSession\<lparr>Error := map_option (\<lambda>e. e\<lparr>Path := ''/''\<rparr>) (Error currentSession)\<rparr>
             else currentSession)
      in c_Redirect StatusSeeOther ''/oops'' (SetData (session h) c currentSession))"

subsection \<open>Provider identifiers of a configuration\<close>

text \<open>The identifiers under which the three loops register the providers of a
  configuration, in the order of the loops.\<close>

definition oidcIds :: "('a, 'l) library \<Rightarrow> Config \<Rightarrow> string list" where
  "oidcIds L cfg =
     map (\<lambda>p. strings_ToLower L (OpenIDConnectProvider.ProviderName p)) (OpenIDConnect (Auth cfg))"

definition plainOauthIds :: "('a, 'l) library \<Rightarrow> Config \<Rightarrow> string list" where
  "plainOauthIds L cfg =
     map (\<lambda>p. strings_ToLower L (OAuthProvider.ProviderName p)) (OAuth (Auth cfg))"

definition ldapIds :: "('a, 'l) library \<Rightarrow> Config \<Rightarrow> string list" where
  "ldapIds L cfg = map (\<lambda>p. strings_ToLower L (URL p)) (Ldap (Auth cfg))"

text \<open>
  The setup as a list of steps, in the order in which the loops take the entries: the
  identifier under which an entry is registered, and what the constructor call that the
  loop makes for it returns (for an OIDC or OAuth entry, on the callback URL that the
  loop computes).
\<close>

definition callbackUrl :: "('a, 'l) library \<Rightarrow> url \<Rightarrow> string \<Rightarrow> string" where
  "callbackUrl L extUrl providerId =
     url_String L (extUrl\<lparr>url.Path :=
       path_Join L [url.Path extUrl, ''/auth/login/'', providerId, ''/callback'']\<rparr>)"

definition oidcStep ::
  "('a, 'l) library \<Rightarrow> url \<Rightarrow> OpenIDConnectProvider \<Rightarrow> string \<times> (error + 'a)" where
  "oidcStep L extUrl p =
     (let providerId = strings_ToLower L (OpenIDConnectProvider.ProviderName p)
      in (providerId, NewOidcAuthenticator L (callbackUrl L extUrl providerId) p))"

definition plainOauthStep ::
  "('a, 'l) library \<Rightarrow> url \<Rightarrow> OAuthProvider \<Rightarrow> string \<times> (error + 'a)" where
  "plainOauthStep L extUrl p =
     (let providerId = strings_ToLower L (OAuthProvider.ProviderName p)
      in (providerId, NewPlainOauthAuthenticator L (callbackUrl L extUrl providerId) p))"

definition ldapStep :: "('a, 'l) library \<Rightarrow> LdapProvider \<Rightarrow> string \<times> (error + 'l)" where
  "ldapStep L p = (strings_ToLower L (URL p), NewLdapAuthenticator L p)"

definition oauthSteps ::
  "('a, 'l) library \<Rightarrow> url \<Rightarrow> Config \<Rightarrow> (string \<times> (error + 'a)) list" where
  "oauthSteps L extUrl cfg =
     map (oidcStep L extUrl) (OpenIDConnect (Auth cfg)) @
     map (plainOauthStep L extUrl) (OAuth (Auth cfg))"

definition ldapSteps :: "('a, 'l) library \<Rightarrow> Config \<Rightarrow> (string \<times> (error + 'l)) list" where
  "ldapSteps L cfg = map (ldapStep L) (Ldap (Auth cfg))"

subsection \<open>Concrete instances\<close>

text \<open>A backend that knows one active user, a handler over it as \<open>NewHandler\<close> builds
  it, a page handler, and a request with a given stored session.\<close>

definition exampleBackend :: "string Backend" where
  "exampleBackend =
     \<lparr>GetActiveUser = (\<lambda>ident. if ident = ''alice'' then Inr ''Alice''
                               else Inl (New ''user not found''))\<rparr>"

definition exampleConfig :: Config where
  "exampleConfig =
     \<lparr>Core = \<lparr>ExternalUrl = ''https://vpn.example.com'', SessionSecret = ''secret''\<rparr>,
      Auth = \<lparr>OpenIDConnect = [], OAuth = [], Ldap = []\<rparr>\<rparr>"

definition exampleHandler :: "(string, string, string) handler" where
  "exampleHandler =
     \<lparr>config = exampleConfig,
      session = GinSessionStore ''wgPortalSession'',
      backend = exampleBackend,
      oauthAuthenticators = Map.empty,
      ldapAuthenticators = Map.empty\<rparr>"

definition okPage :: HandlerFunc where
  "okPage next c = c_String 200 ''ok'' c"

text \<open>Two protected handlers written against gin's API: one renders a page; the other
  calls \<open>Next\<close>, renders the page and aborts.\<close>

definition okBody :: body where
  "okBody = Do (c_String 200 ''ok'') Done"

definition busyBody :: body where
  "busyBody = CallNext (Do (c_String 200 ''ok'') (CallAbort Done))"

definition exampleSession :: "bool \<Rightarrow> string \<Rightarrow> SessionData" where
  "exampleSession admin ident =
     \<lparr>LoggedIn = True, IsAdmin = admin, UserIdentifier = ident, DeepLink = ''/'', Error = None\<rparr>"

definition exampleRequest :: "SessionData option \<Rightarrow> Context" where
  "exampleRequest stored =
     \<lparr>RequestURI = ''/admin/users?page=2'', URLPath = ''/admin/users'',
      sessions = Map.empty(''wgPortalSession'' := stored), index = - 1, written = []\<rparr>"

text \<open>Lower-casing of ASCII letters, and a library over it: URLs of the form
  \<open>scheme://host/path\<close> are not taken apart, the path is joined by concatenation, and
  every constructor answers, unless the provider is named \<open>down\<close>.\<close>

definition asciiToLower :: "string \<Rightarrow> string" where
  "asciiToLower s =
     map (\<lambda>ch. case map_of (zip ''ABCDEFGHIJKLMNOPQRSTUVWXYZ'' ''abcdefghijklmnopqrstuvwxyz'') ch of
                 None \<Rightarrow> ch | Some l \<Rightarrow> l) s"

definition exampleLibrary :: "(string, string) library" where
  "exampleLibrary =
     \<lparr>strings_ToLower = asciiToLower,
      url_Parse = (\<lambda>s. if s = [] then Inl (New ''empty url'')
                       else Inr \<lparr>Scheme = [], Host = s, Path = []\<rparr>),
      url_String = (\<lambda>u. Scheme u @ Host u @ url.Path u),
      path_Join = concat,
      NewOidcAuthenticator = (\<lambda>callback p.
         if OpenIDConnectProvider.ProviderName p = ''down'' then Inl (New ''connection refused'')
         else Inr callback),
      NewPlainOauthAuthenticator = (\<lambda>callback p.
         if OAuthProvider.ProviderName p = ''down'' then Inl (New ''connection refused'')
         else Inr callback),
      NewLdapAuthenticator = (\<lambda>p.
         if URL p = ''down'' then Inl (New ''connection refused'') else Inr (URL p))\<rparr>"

definition exampleAuth ::
  "string list \<Rightarrow> string list \<Rightarrow> string list \<Rightarrow> Config" where
  "exampleAuth oidc oauth ldap =
     \<lparr>Core = \<lparr>ExternalUrl = ''https://vpn.example.com'', SessionSecret = ''secret''\<rparr>,
      Auth = \<lparr>OpenIDConnect = map (\<lambda>n. \<lparr>OpenIDConnectProvider.ProviderName = n\<rparr>) oidc,
              OAuth = map (\<lambda>n. \<lparr>OAuthProvider.ProviderName = n\<rparr>) oauth,
              Ldap = map (\<lambda>u. \<lparr>URL = u\<rparr>) ldap\<rparr>\<rparr>"

section \<open>Properties\<close>

subsection \<open>The handler chain and the branches of the middleware\<close>

lemma Next_continuation:
  "(\<lambda>d. if index d = i then run_handlers fs (d\<lparr>index := i + 1\<rparr>)
        else d\<lparr>index := index d + 1\<rparr>) = c_Next i fs"
  by (simp add: c_Next_def fun_eq_iff)

lemma run_handlers_Cons:
  "run_handlers (f # fs) c =
     (let c1 = f (c_Next (index c) fs) c in
      if index c1 = index c then run_handlers fs (c1\<lparr>index := index c1 + 1\<rparr>)
      else c1\<lparr>index := index c1 + 1\<rparr>)"
  by (simp add: Let_def Next_continuation)

lemma serve_Cons: "serve (f # fs) c = run_handlers (f # fs) (c\<lparr>written := [], index := 0\<rparr>)"
  by (simp add: serve_def c_Next_def del: run_handlers.simps)

lemma serve_aborting:
  assumes "index (f (c_Next 0 fs) (c\<lparr>written := [], index := 0\<rparr>)) = abortIndex"
  shows "serve (f # fs) c = (f (c_Next 0 fs) (c\<lparr>written := [], index := 0\<rparr>))\<lparr>index := abortIndex + 1\<rparr>"
  using assms unfolding serve_Cons run_handlers_Cons by (simp add: Let_def abortIndex_def)


lemma mw_scope_rejected:
  "LoggedIn (GetData (session h) c) \<Longrightarrow> scope \<noteq> [] \<Longrightarrow> \<not> IsAdmin (GetData (session h) c) \<Longrightarrow>
   authenticationMiddleware h scope next c =
     c_String StatusUnauthorized ''unauthorized: not enough permissions'' (c_Abort c)"
  by (simp add: authenticationMiddleware_def Let_def)


lemma mw_pass:
  "LoggedIn (GetData (session h) c) \<Longrightarrow> scope = [] \<or> IsAdmin (GetData (session h) c) \<Longrightarrow>
   GetActiveUser (backend h) (UserIdentifier (GetData (session h) c)) = Inr user \<Longrightarrow>
   authenticationMiddleware h scope next c = next c"
  by (auto simp add: authenticationMiddleware_def Let_def isUserStillValid_def)

lemma Gin_GetData_sessions:
  "sessions c' = sessions c \<Longrightarrow> GetData (GinSessionStore sid) c' = GetData (GinSessionStore sid) c"
  by (simp add: GinSessionStore_def)

lemma Gin_GetData_started:
  "GetData (GinSessionStore sid) (c\<lparr>written := w, index := i\<rparr>) = GetData (GinSessionStore sid) c"
  by (simp add: GinSessionStore_def)


lemma serve_scope_rejected:
  assumes "session h = GinSessionStore sid"
      and "LoggedIn (GetData (session h) c)"
      and "scope \<noteq> []"
      and "\<not> IsAdmin (GetData (session h) c)"
  shows "serve (authenticationMiddleware h scope # rest) c =
           c\<lparr>index := abortIndex + 1,
             written := [StringResponse StatusUnauthorized ''unauthorized: not enough permissions'']\<rparr>"
proof -
  let ?c0 = "c\<lparr>written := [], index := 0\<rparr>"
  have g: "GetData (session h) ?c0 = GetData (session h) c"
    unfolding assms(1) by (rule Gin_GetData_started)
  have m: "authenticationMiddleware h scope (c_Next 0 rest) ?c0 =
      c_String StatusUnauthorized ''unauthorized: not enough permissions'' (c_Abort ?c0)"
    using mw_scope_rejected [of h ?c0 scope "c_Next 0 rest"] assms(2,3,4) g by simp
  have i: "index (authenticationMiddleware h scope (c_Next 0 rest) ?c0) = abortIndex"
    unfolding m by (simp add: c_String_def c_Abort_def)
  show ?thesis
    unfolding serve_aborting [of "authenticationMiddleware h scope" rest c, OF i] m
    by (simp add: c_String_def c_Abort_def)
qed


lemma serve_pass:
  assumes "session h = GinSessionStore sid"
      and "LoggedIn (GetData (session h) c)"
      and "scope = [] \<or> IsAdmin (GetData (session h) c)"
      and "GetActiveUser (backend h) (UserIdentifier (GetData (session h) c)) = Inr user"
      and "index (run_handlers rest (c\<lparr>written := [], index := 1\<rparr>)) \<noteq> 0"
  shows "serve (authenticationMiddleware h scope # rest) c =
           (let r = run_handlers rest (c\<lparr>written := [], index := 1\<rparr>)
            in r\<lparr>index := index r + 1\<rparr>)"
proof -
  let ?c0 = "c\<lparr>written := [], index := 0\<rparr>"
  let ?r = "run_handlers rest (c\<lparr>written := [], index := 1\<rparr>)"
  have g: "GetData (session h) ?c0 = GetData (session h) c"
    unfolding assms(1) by (rule Gin_GetData_started)
  have n: "c_Next 0 rest ?c0 = ?r"
    by (simp add: c_Next_def)
  have m: "authenticationMiddleware h scope (c_Next 0 rest) ?c0 = ?r"
    using mw_pass [of h ?c0 scope user "c_Next 0 rest"] assms(2,3,4) g n by simp
  have "run_handlers (authenticationMiddleware h scope # rest) ?c0 = ?r\<lparr>index := index ?r + 1\<rparr>"
    unfolding run_handlers_Cons using assms(5) by (simp add: m Let_def)
  then show ?thesis
    unfolding serve_Cons by (simp add: Let_def)
qed

text \<open>Handlers written against gin's API never move the index below a position of the
  chain.\<close>

lemma runBody_index:
  assumes "m \<le> abortIndex" and "m \<le> index c"
      and "\<And>d. m \<le> index d \<Longrightarrow> m \<le> index (nxt d)"
  shows "m \<le> index (runBody b nxt c)"
  using assms(2)
proof (induction b arbitrary: c)
  case (CallNext b)
  then show ?case using assms(3) by simp
next
  case (CallAbort b)
  then show ?case using assms(1) by (simp add: c_Abort_def)
qed simp_all

lemma run_handlers_bodies_index:
  assumes "m \<le> abortIndex" and "m \<le> index c"
  shows "m \<le> index (run_handlers (map runBody bs) c)"
  using assms(2)
proof (induction bs arbitrary: c)
  case Nil
  then show ?case by simp
next
  case (Cons b bs)
  let ?nxt = "c_Next (index c) (map runBody bs)"
  let ?c1 = "runBody b ?nxt c"
  have nxt: "m \<le> index (?nxt d)" if "m \<le> index d" for d
    using that Cons.IH [of "d\<lparr>index := index c + 1\<rparr>"] Cons.prems by (simp add: c_Next_def)
  have c1: "m \<le> index ?c1"
    by (rule runBody_index [OF assms(1) Cons.prems nxt])
  show ?case
  proof (cases "index ?c1 = index c")
    case True
    with c1 Cons.IH [of "?c1\<lparr>index := index ?c1 + 1\<rparr>"] show ?thesis
      by (simp add: run_handlers_Cons Let_def del: run_handlers.simps(2))
  next
    case False
    with c1 show ?thesis
      by (simp add: run_handlers_Cons Let_def del: run_handlers.simps(2))
  qed
qed

subsection \<open>The middleware on a guarded route\<close>



lemma example_session: "session exampleHandler = GinSessionStore ''wgPortalSession''"
  by (simp add: exampleHandler_def)

lemma example_GetData:
  "GetData (session exampleHandler) (exampleRequest stored) =
     (case stored of None \<Rightarrow> zeroSessionData | Some data \<Rightarrow> data)"
  by (simp add: exampleHandler_def GinSessionStore_def exampleRequest_def)







text \<open>
  C6: a logged-in administrator session whose user \<open>GetActiveUser\<close> returns passes the
  middleware, which does nothing but call \<open>Next\<close>. On a chain of the middleware, a
  protected handler and whatever handlers follow, the protected handler runs once, at
  the position after the middleware, on the request as it came in; the handlers after
  it run as gin's loop has it, if the protected handler neither aborted nor ran them
  itself through \<open>Next\<close>. The handlers may call \<open>Next\<close> and \<open>Abort\<close> as they like.
\<close>

theorem active_admin_reaches_handler_once:
  assumes "session h = GinSessionStore sid"
      and "LoggedIn (GetData (session h) c)"
      and "IsAdmin (GetData (session h) c)"
      and "GetActiveUser (backend h) (UserIdentifier (GetData (session h) c)) = Inr user"
  shows "authenticationMiddleware h scope next c = next c \<and>
         serve (authenticationMiddleware h scope # runBody protected # map runBody rest) c =
           (let c1 = runBody protected (c_Next 1 (map runBody rest)) (c\<lparr>written := [], index := 1\<rparr>);
                r = (if index c1 = 1 then run_handlers (map runBody rest) (c1\<lparr>index := 2\<rparr>)
                     else c1\<lparr>index := index c1 + 1\<rparr>)
            in r\<lparr>index := index r + 1\<rparr>)"
proof (intro conjI)
  show "authenticationMiddleware h scope next c = next c"
    by (rule mw_pass [OF assms(2) disjI2 [OF assms(3)] assms(4)])
next
  let ?hs = "runBody protected # map runBody rest"
  let ?c1 = "c\<lparr>written := [], index := 1\<rparr>"
  have "1 \<le> index (run_handlers (map runBody (protected # rest)) ?c1)"
    by (rule run_handlers_bodies_index) (simp_all add: abortIndex_def)
  then have nz: "index (run_handlers ?hs ?c1) \<noteq> 0"
    by (simp del: run_handlers.simps(2))
  have "serve (authenticationMiddleware h scope # ?hs) c =
          (let r = run_handlers ?hs ?c1 in r\<lparr>index := index r + 1\<rparr>)"
    by (rule serve_pass [OF assms(1,2) disjI2 [OF assms(3)] assms(4) nz])
  then show "serve (authenticationMiddleware h scope # ?hs) c =
           (let c1 = runBody protected (c_Next 1 (map runBody rest)) ?c1;
                r = (if index c1 = 1 then run_handlers (map runBody rest) (c1\<lparr>index := 2\<rparr>)
                     else c1\<lparr>index := index c1 + 1\<rparr>)
            in r\<lparr>index := index r + 1\<rparr>)"
    by (simp add: run_handlers_Cons Let_def del: run_handlers.simps(2))
qed

theorem active_admin_reaches_handler_once_witness:
  "let c = exampleRequest (Some (exampleSession True ''alice''));
       r = serve [authenticationMiddleware exampleHandler ''admin'', runBody okBody] c;
       r' = serve [authenticationMiddleware exampleHandler ''admin'', runBody busyBody] c
   in LoggedIn (GetData (session exampleHandler) c) \<and>
      IsAdmin (GetData (session exampleHandler) c) \<and>
      GetActiveUser (backend exampleHandler) (UserIdentifier (GetData (session exampleHandler) c)) =
        Inr ''Alice'' \<and>
      written r = [StringResponse 200 ''ok''] \<and>
      \<not> c_IsAborted r \<and>
      sessions r = sessions c \<and>
      written r' = [StringResponse 200 ''ok''] \<and>
      c_IsAborted r' \<and>
      sessions r' = sessions c"
proof -
  let ?c = "exampleRequest (Some (exampleSession True ''alice''))"
  let ?r = "serve [authenticationMiddleware exampleHandler ''admin'', runBody okBody] ?c"
  let ?r' = "serve [authenticationMiddleware exampleHandler ''admin'', runBody busyBody] ?c"
  have l: "LoggedIn (GetData (session exampleHandler) ?c)"
    unfolding example_GetData by (simp add: exampleSession_def)
  have a: "IsAdmin (GetData (session exampleHandler) ?c)"
    unfolding example_GetData by (simp add: exampleSession_def)
  have e: "GetActiveUser (backend exampleHandler) (UserIdentifier (GetData (session exampleHandler) ?c)) =
             Inr ''Alice''"
    unfolding example_GetData by (simp add: exampleSession_def exampleHandler_def exampleBackend_def)
  from active_admin_reaches_handler_once
         [where scope = "''admin''" and protected = okBody and rest = "[]", OF example_session l a e]
  have "?r = (?c\<lparr>written := [StringResponse 200 ''ok''], index := 3\<rparr>)"
    by (simp add: Let_def okBody_def c_String_def)
  then have r: "written ?r = [StringResponse 200 ''ok'']" "\<not> c_IsAborted ?r" "sessions ?r = sessions ?c"
    by (simp_all add: c_IsAborted_def abortIndex_def)
  from active_admin_reaches_handler_once
         [where scope = "''admin''" and protected = busyBody and rest = "[]", OF example_session l a e]
  have "?r' = (?c\<lparr>written := [StringResponse 200 ''ok''], index := 65\<rparr>)"
    by (simp add: Let_def busyBody_def c_String_def c_Next_def c_Abort_def abortIndex_def)
  then have r': "written ?r' = [StringResponse 200 ''ok'']" "c_IsAborted ?r'" "sessions ?r' = sessions ?c"
    by (simp_all add: c_IsAborted_def abortIndex_def)
  from l a e r r' show ?thesis
    unfolding Let_def by blast
qed

lemma mw_sessions:
  assumes "session h = GinSessionStore sid"
  shows "sessions (authenticationMiddleware h scope next c) =
          (if \<not> LoggedIn (GetData (session h) c)
           then (sessions c)(sid \<mapsto> (GetData (session h) c)\<lparr>DeepLink := RequestURI c\<rparr>)
           else if scope \<noteq> [] \<and> \<not> IsAdmin (GetData (session h) c) then sessions c
           else if \<not> isUserStillValid h (UserIdentifier (GetData (session h) c))
           then (sessions c)(sid := None)
           else sessions (next c))"
  by (simp add: authenticationMiddleware_def Let_def c_Redirect_def c_String_def c_Abort_def)
     (simp add: assms GinSessionStore_def)

text \<open>
  C10: when the middleware rejects a logged-in request for insufficient scope, the
  stored session stays as it was (its deep-link included). The middleware writes the
  session in the not-logged-in branch only (the deep-link) and destroys it in the
  failed-revalidation branch only; when it passes the request on, the session state is
  whatever the rest of the chain leaves.
\<close>

theorem scope_rejection_leaves_session_untouched:
  assumes "session h = GinSessionStore sid"
  shows "(LoggedIn (GetData (session h) c) \<and> scope \<noteq> [] \<and> \<not> IsAdmin (GetData (session h) c) \<longrightarrow>
            sessions (serve (authenticationMiddleware h scope # rest) c) = sessions c \<and>
            GetData (session h) (serve (authenticationMiddleware h scope # rest) c) =
              GetData (session h) c) \<and>
         sessions (authenticationMiddleware h scope run_rest c) =
          (if \<not> LoggedIn (GetData (session h) c)
           then (sessions c)(sid \<mapsto> (GetData (session h) c)\<lparr>DeepLink := RequestURI c\<rparr>)
           else if scope \<noteq> [] \<and> \<not> IsAdmin (GetData (session h) c) then sessions c
           else if \<not> isUserStillValid h (UserIdentifier (GetData (session h) c))
           then (sessions c)(sid := None)
           else sessions (run_rest c))"
proof (intro conjI impI)
  assume rej: "LoggedIn (GetData (session h) c) \<and> scope \<noteq> [] \<and> \<not> IsAdmin (GetData (session h) c)"
  then have r: "serve (authenticationMiddleware h scope # rest) c =
           c\<lparr>index := abortIndex + 1,
             written := [StringResponse StatusUnauthorized ''unauthorized: not enough permissions'']\<rparr>"
    using serve_scope_rejected [OF assms, of c scope rest] by blast
  show "sessions (serve (authenticationMiddleware h scope # rest) c) = sessions c"
    by (simp add: r)
  then show "GetData (session h) (serve (authenticationMiddleware h scope # rest) c) =
              GetData (session h) c"
    unfolding assms by (rule Gin_GetData_sessions)
next
  show "sessions (authenticationMiddleware h scope run_rest c) =
          (if \<not> LoggedIn (GetData (session h) c)
           then (sessions c)(sid \<mapsto> (GetData (session h) c)\<lparr>DeepLink := RequestURI c\<rparr>)
           else if scope \<noteq> [] \<and> \<not> IsAdmin (GetData (session h) c) then sessions c
           else if \<not> isUserStillValid h (UserIdentifier (GetData (session h) c))
           then (sessions c)(sid := None)
           else sessions (run_rest c))"
    by (rule mw_sessions [OF assms])
qed

theorem scope_rejection_leaves_session_untouched_witness:
  "let c = exampleRequest (Some (exampleSession False ''alice''));
       r = serve [authenticationMiddleware exampleHandler ''admin'', okPage] c
   in LoggedIn (GetData (session exampleHandler) c) \<and>
      \<not> IsAdmin (GetData (session exampleHandler) c) \<and>
      sessions r = sessions c \<and>
      DeepLink (GetData (session exampleHandler) r) = ''/'' \<and>
      sessions (authenticationMiddleware exampleHandler ''admin'' (c_Next 0 [okPage]) c) = sessions c"
proof -
  let ?c = "exampleRequest (Some (exampleSession False ''alice''))"
  have l: "LoggedIn (GetData (session exampleHandler) ?c)"
    unfolding example_GetData by (simp add: exampleSession_def)
  have a: "\<not> IsAdmin (GetData (session exampleHandler) ?c)"
    unfolding example_GetData by (simp add: exampleSession_def)
  have d: "DeepLink (GetData (session exampleHandler) ?c) = ''/''"
    unfolding example_GetData by (simp add: exampleSession_def)
  from scope_rejection_leaves_session_untouched
         [where c = ?c and scope = "''admin''" and rest = "[okPage]" and run_rest = "c_Next 0 [okPage]",
          OF example_session] l a d
  show ?thesis
    unfolding Let_def by simp
qed

subsection \<open>The error reporter\<close>

text \<open>
  C8: \<open>HandleError\<close> stores in the session an error payload with the message of the
  error, the details and the status code given, replacing whatever payload was pending;
  the payload's path is "/" for status 404 and the path of the request for every other
  status. The session is persisted and the response is a redirect to /oops.
\<close>

theorem HandleError_stores_payload_and_redirects:
  assumes "session h = GinSessionStore sid"
  shows "let r = HandleError h c code err details;
             payload = \<lparr>Message = Error_string err, Details = details, Code = code,
                        Path = (if code = StatusNotFound then ''/'' else URLPath c)\<rparr>
         in Error (GetData (session h) r) = Some payload \<and>
            sessions r = (sessions c)(sid \<mapsto> (GetData (session h) c)\<lparr>Error := Some payload\<rparr>) \<and>
            written r = written c @ [RedirectResponse StatusSeeOther ''/oops'']"
  by (simp add: HandleError_def Let_def c_Redirect_def assms GinSessionStore_def)

theorem HandleError_stores_payload_and_redirects_witness:
  "let c = exampleRequest (Some ((exampleSession True ''alice'')
               \<lparr>Error := Some \<lparr>Message = ''old'', Details = ''old'', Code = 500, Path = ''/old''\<rparr>\<rparr>))
   in Error (GetData (session exampleHandler) (HandleError exampleHandler c 404 (New ''gone'') ''no page'')) =
        Some \<lparr>Message = ''gone'', Details = ''no page'', Code = 404, Path = ''/''\<rparr> \<and>
      Error (GetData (session exampleHandler) (HandleError exampleHandler c 500 (New ''broken'') ''oops'')) =
        Some \<lparr>Message = ''broken'', Details = ''oops'', Code = 500, Path = ''/admin/users''\<rparr> \<and>
      written (HandleError exampleHandler c 404 (New ''gone'') ''no page'') =
        [RedirectResponse StatusSeeOther ''/oops'']"
proof -
  let ?c = "exampleRequest (Some ((exampleSession True ''alice'')
               \<lparr>Error := Some \<lparr>Message = ''old'', Details = ''old'', Code = 500, Path = ''/old''\<rparr>\<rparr>))"
  have p: "URLPath ?c = ''/admin/users''" and w: "written ?c = []"
    by (simp_all add: exampleRequest_def)
  from HandleError_stores_payload_and_redirects
         [OF example_session, of ?c 404 "New ''gone''" "''no page''"]
       HandleError_stores_payload_and_redirects
         [OF example_session, of ?c 500 "New ''broken''" "''oops''"]
  show ?thesis
    unfolding Let_def p w by (simp add: StatusNotFound_def)
qed

text \<open>
  C9: \<open>HandleError\<close> changes the error payload of the session and nothing else: the
  logged-in flag, the user identifier, the administrator flag and the deep-link read
  from the store afterwards are those read before, and sessions stored under other
  identifiers are left alone.
\<close>

theorem HandleError_changes_error_payload_only:
  assumes "session h = GinSessionStore sid"
  shows "let before = GetData (session h) c;
             r = HandleError h c code err details;
             after = GetData (session h) r
         in LoggedIn after = LoggedIn before \<and>
            UserIdentifier after = UserIdentifier before \<and>
            IsAdmin after = IsAdmin before \<and>
            DeepLink after = DeepLink before \<and>
            after = before\<lparr>Error := Error after\<rparr> \<and>
            (\<forall>other. other \<noteq> sid \<longrightarrow> sessions r other = sessions c other)"
  by (simp add: HandleError_def Let_def c_Redirect_def assms GinSessionStore_def)

theorem HandleError_changes_error_payload_only_witness:
  "let c = exampleRequest (Some (exampleSession True ''alice''));
       after = GetData (session exampleHandler) (HandleError exampleHandler c 404 (New ''gone'') ''no page'')
   in LoggedIn after \<and> UserIdentifier after = ''alice'' \<and> IsAdmin after \<and> DeepLink after = ''/'' \<and>
      Error after \<noteq> None"
proof -
  let ?c = "exampleRequest (Some (exampleSession True ''alice''))"
  have g: "GetData (session exampleHandler) ?c = exampleSession True ''alice''"
    unfolding example_GetData by simp
  have e: "Error (GetData (session exampleHandler) (HandleError exampleHandler ?c 404 (New ''gone'') ''no page'')) \<noteq> None"
    by (simp add: HandleError_def exampleHandler_def GinSessionStore_def Let_def c_Redirect_def)
  from HandleError_changes_error_payload_only
         [OF example_session, of ?c 404 "New ''gone''" "''no page''"] e
  show ?thesis
    unfolding Let_def g by (simp add: exampleSession_def)
qed

subsection \<open>The three loops of the setup\<close>

lemma setupOpenIDConnect_None:
  "setupOpenIDConnect L e cfgs h = (h', None) \<Longrightarrow>
     distinct (map (\<lambda>p. strings_ToLower L (OpenIDConnectProvider.ProviderName p)) cfgs) \<and>
     set (map (\<lambda>p. strings_ToLower L (OpenIDConnectProvider.ProviderName p)) cfgs) \<inter> dom (oauthAuthenticators h) = {} \<and>
     dom (oauthAuthenticators h') =
       dom (oauthAuthenticators h) \<union> set (map (\<lambda>p. strings_ToLower L (OpenIDConnectProvider.ProviderName p)) cfgs) \<and>
     h' = h\<lparr>oauthAuthenticators := oauthAuthenticators h'\<rparr>"
proof (induction cfgs arbitrary: h)
  case Nil
  then show ?case by simp
next
  case (Cons p cfgs)
  let ?pid = "strings_ToLower L (OpenIDConnectProvider.ProviderName p)"
  from Cons.prems have fresh: "oauthAuthenticators h ?pid = None"
    by (simp add: Let_def split: if_splits)
  from Cons.prems fresh obtain a where
    rec: "setupOpenIDConnect L e cfgs (h\<lparr>oauthAuthenticators := (oauthAuthenticators h)(?pid \<mapsto> a)\<rparr>) = (h', None)"
    by (simp add: Let_def split: sum.splits)
  from Cons.IH [OF rec] fresh show ?case
    by (auto simp add: domIff)
qed

lemma oidcStep_simps:
  "fst (oidcStep L e p) = strings_ToLower L (OpenIDConnectProvider.ProviderName p)"
  "snd (oidcStep L e p) =
     NewOidcAuthenticator L
       (url_String L (e\<lparr>url.Path := path_Join L [url.Path e, ''/auth/login/'',
          strings_ToLower L (OpenIDConnectProvider.ProviderName p), ''/callback'']\<rparr>)) p"
  by (simp_all add: oidcStep_def callbackUrl_def Let_def)

text \<open>The loop runs through when the identifiers are new and distinct and every
  constructor call it makes succeeds.\<close>

lemma setupOpenIDConnect_completes:
  assumes "\<forall>p\<in>set cfgs. \<not> isl (snd (oidcStep L e p))"
      and "distinct (map (\<lambda>p. fst (oidcStep L e p)) cfgs)"
      and "set (map (\<lambda>p. fst (oidcStep L e p)) cfgs) \<inter> dom (oauthAuthenticators h) = {}"
  shows "\<exists>h'. setupOpenIDConnect L e cfgs h = (h', None)"
  using assms
proof (induction cfgs arbitrary: h)
  case Nil
  then show ?case by simp
next
  case (Cons p cfgs)
  let ?pid = "strings_ToLower L (OpenIDConnectProvider.ProviderName p)"
  from Cons.prems(3) have fresh: "oauthAuthenticators h ?pid = None"
    by (auto simp add: oidcStep_simps domIff)
  from Cons.prems(1) obtain a where a: "snd (oidcStep L e p) = Inr a"
    by (cases "snd (oidcStep L e p)") auto
  let ?h1 = "h\<lparr>oauthAuthenticators := (oauthAuthenticators h)(?pid \<mapsto> a)\<rparr>"
  have "\<exists>h'. setupOpenIDConnect L e cfgs ?h1 = (h', None)"
  proof (rule Cons.IH)
    show "\<forall>p\<in>set cfgs. \<not> isl (snd (oidcStep L e p))" using Cons.prems(1) by simp
    show "distinct (map (\<lambda>p. fst (oidcStep L e p)) cfgs)" using Cons.prems(2) by simp
    show "set (map (\<lambda>p. fst (oidcStep L e p)) cfgs) \<inter> dom (oauthAuthenticators ?h1) = {}"
      using Cons.prems(2,3) by (auto simp add: oidcStep_simps)
  qed
  with fresh a show ?case
    by (simp add: Let_def oidcStep_simps)
qed

text \<open>The loop returns the duplicate-provider error at the first entry whose identifier
  is registered already, when the constructor calls for the entries before it succeed;
  the constructor of that entry is not called.\<close>

lemma setupOpenIDConnect_repeat:
  assumes "\<forall>q\<in>set pre. \<not> isl (snd (oidcStep L e q))"
      and "distinct (map (\<lambda>q. fst (oidcStep L e q)) pre)"
      and "set (map (\<lambda>q. fst (oidcStep L e q)) pre) \<inter> dom (oauthAuthenticators h) = {}"
      and "fst (oidcStep L e p) \<in>
             set (map (\<lambda>q. fst (oidcStep L e q)) pre) \<union> dom (oauthAuthenticators h)"
  shows "\<exists>h'. setupOpenIDConnect L e (pre @ p # post) h =
                (h', Some (already_registered (fst (oidcStep L e p))))"
  using assms
proof (induction pre arbitrary: h)
  case Nil
  then have "oauthAuthenticators h (strings_ToLower L (OpenIDConnectProvider.ProviderName p)) \<noteq> None"
    by (auto simp add: oidcStep_simps domIff)
  then show ?case by (simp add: Let_def oidcStep_simps)
next
  case (Cons q pre)
  let ?qid = "strings_ToLower L (OpenIDConnectProvider.ProviderName q)"
  from Cons.prems(3) have fresh: "oauthAuthenticators h ?qid = None"
    by (auto simp add: oidcStep_simps domIff)
  from Cons.prems(1) obtain a where a: "snd (oidcStep L e q) = Inr a"
    by (cases "snd (oidcStep L e q)") auto
  let ?h1 = "h\<lparr>oauthAuthenticators := (oauthAuthenticators h)(?qid \<mapsto> a)\<rparr>"
  have "\<exists>h'. setupOpenIDConnect L e (pre @ p # post) ?h1 =
               (h', Some (already_registered (fst (oidcStep L e p))))"
  proof (rule Cons.IH)
    show "\<forall>q\<in>set pre. \<not> isl (snd (oidcStep L e q))" using Cons.prems(1) by simp
    show "distinct (map (\<lambda>q. fst (oidcStep L e q)) pre)" using Cons.prems(2) by simp
    show "set (map (\<lambda>q. fst (oidcStep L e q)) pre) \<inter> dom (oauthAuthenticators ?h1) = {}"
      using Cons.prems(2,3) by (auto simp add: oidcStep_simps)
    show "fst (oidcStep L e p) \<in>
            set (map (\<lambda>q. fst (oidcStep L e q)) pre) \<union> dom (oauthAuthenticators ?h1)"
      using Cons.prems(4) by (auto simp add: oidcStep_simps)
  qed
  with fresh a show ?case
    by (simp add: Let_def oidcStep_simps)
qed

lemma setupOAuth_None:
  "setupOAuth L e cfgs h = (h', None) \<Longrightarrow>
     distinct (map (\<lambda>p. strings_ToLower L (OAuthProvider.ProviderName p)) cfgs) \<and>
     set (map (\<lambda>p. strings_ToLower L (OAuthProvider.ProviderName p)) cfgs) \<inter> dom (oauthAuthenticators h) = {} \<and>
     dom (oauthAuthenticators h') =
       dom (oauthAuthenticators h) \<union> set (map (\<lambda>p. strings_ToLower L (OAuthProvider.ProviderName p)) cfgs) \<and>
     h' = h\<lparr>oauthAuthenticators := oauthAuthenticators h'\<rparr>"
proof (induction cfgs arbitrary: h)
  case Nil
  then show ?case by simp
next
  case (Cons p cfgs)
  let ?pid = "strings_ToLower L (OAuthProvider.ProviderName p)"
  from Cons.prems have fresh: "oauthAuthenticators h ?pid = None"
    by (simp add: Let_def split: if_splits)
  from Cons.prems fresh obtain a where
    rec: "setupOAuth L e cfgs (h\<lparr>oauthAuthenticators := (oauthAuthenticators h)(?pid \<mapsto> a)\<rparr>) = (h', None)"
    by (simp add: Let_def split: sum.splits)
  from Cons.IH [OF rec] fresh show ?case
    by (auto simp add: domIff)
qed

lemma plainOauthStep_simps:
  "fst (plainOauthStep L e p) = strings_ToLower L (OAuthProvider.ProviderName p)"
  "snd (plainOauthStep L e p) =
     NewPlainOauthAuthenticator L
       (url_String L (e\<lparr>url.Path := path_Join L [url.Path e, ''/auth/login/'',
          strings_ToLower L (OAuthProvider.ProviderName p), ''/callback'']\<rparr>)) p"
  by (simp_all add: plainOauthStep_def callbackUrl_def Let_def)

lemma setupOAuth_completes:
  assumes "\<forall>p\<in>set cfgs. \<not> isl (snd (plainOauthStep L e p))"
      and "distinct (map (\<lambda>p. fst (plainOauthStep L e p)) cfgs)"
      and "set (map (\<lambda>p. fst (plainOauthStep L e p)) cfgs) \<inter> dom (oauthAuthenticators h) = {}"
  shows "\<exists>h'. setupOAuth L e cfgs h = (h', None)"
  using assms
proof (induction cfgs arbitrary: h)
  case Nil
  then show ?case by simp
next
  case (Cons p cfgs)
  let ?pid = "strings_ToLower L (OAuthProvider.ProviderName p)"
  from Cons.prems(3) have fresh: "oauthAuthenticators h ?pid = None"
    by (auto simp add: plainOauthStep_simps domIff)
  from Cons.prems(1) obtain a where a: "snd (plainOauthStep L e p) = Inr a"
    by (cases "snd (plainOauthStep L e p)") auto
  let ?h1 = "h\<lparr>oauthAuthenticators := (oauthAuthenticators h)(?pid \<mapsto> a)\<rparr>"
  have "\<exists>h'. setupOAuth L e cfgs ?h1 = (h', None)"
  proof (rule Cons.IH)
    show "\<forall>p\<in>set cfgs. \<not> isl (snd (plainOauthStep L e p))" using Cons.prems(1) by simp
    show "distinct (map (\<lambda>p. fst (plainOauthStep L e p)) cfgs)" using Cons.prems(2) by simp
    show "set (map (\<lambda>p. fst (plainOauthStep L e p)) cfgs) \<inter> dom (oauthAuthenticators ?h1) = {}"
      using Cons.prems(2,3) by (auto simp add: plainOauthStep_simps)
  qed
  with fresh a show ?case
    by (simp add: Let_def plainOauthStep_simps)
qed

lemma setupOAuth_repeat:
  assumes "\<forall>q\<in>set pre. \<not> isl (snd (plainOauthStep L e q))"
      and "distinct (map (\<lambda>q. fst (plainOauthStep L e q)) pre)"
      and "set (map (\<lambda>q. fst (plainOauthStep L e q)) pre) \<inter> dom (oauthAuthenticators h) = {}"
      and "fst (plainOauthStep L e p) \<in>
             set (map (\<lambda>q. fst (plainOauthStep L e q)) pre) \<union> dom (oauthAuthenticators h)"
  shows "\<exists>h'. setupOAuth L e (pre @ p # post) h =
                (h', Some (already_registered (fst (plainOauthStep L e p))))"
  using assms
proof (induction pre arbitrary: h)
  case Nil
  then have "oauthAuthenticators h (strings_ToLower L (OAuthProvider.ProviderName p)) \<noteq> None"
    by (auto simp add: plainOauthStep_simps domIff)
  then show ?case by (simp add: Let_def plainOauthStep_simps)
next
  case (Cons q pre)
  let ?qid = "strings_ToLower L (OAuthProvider.ProviderName q)"
  from Cons.prems(3) have fresh: "oauthAuthenticators h ?qid = None"
    by (auto simp add: plainOauthStep_simps domIff)
  from Cons.prems(1) obtain a where a: "snd (plainOauthStep L e q) = Inr a"
    by (cases "snd (plainOauthStep L e q)") auto
  let ?h1 = "h\<lparr>oauthAuthenticators := (oauthAuthenticators h)(?qid \<mapsto> a)\<rparr>"
  have "\<exists>h'. setupOAuth L e (pre @ p # post) ?h1 =
               (h', Some (already_registered (fst (plainOauthStep L e p))))"
  proof (rule Cons.IH)
    show "\<forall>q\<in>set pre. \<not> isl (snd (plainOauthStep L e q))" using Cons.prems(1) by simp
    show "distinct (map (\<lambda>q. fst (plainOauthStep L e q)) pre)" using Cons.prems(2) by simp
    show "set (map (\<lambda>q. fst (plainOauthStep L e q)) pre) \<inter> dom (oauthAuthenticators ?h1) = {}"
      using Cons.prems(2,3) by (auto simp add: plainOauthStep_simps)
    show "fst (plainOauthStep L e p) \<in>
            set (map (\<lambda>q. fst (plainOauthStep L e q)) pre) \<union> dom (oauthAuthenticators ?h1)"
      using Cons.prems(4) by (auto simp add: plainOauthStep_simps)
  qed
  with fresh a show ?case
    by (simp add: Let_def plainOauthStep_simps)
qed

lemma setupLdap_None:
  "setupLdap L cfgs h = (h', None) \<Longrightarrow>
     distinct (map (\<lambda>p. strings_ToLower L (URL p)) cfgs) \<and>
     set (map (\<lambda>p. strings_ToLower L (URL p)) cfgs) \<inter> dom (ldapAuthenticators h) = {} \<and>
     dom (ldapAuthenticators h') =
       dom (ldapAuthenticators h) \<union> set (map (\<lambda>p. strings_ToLower L (URL p)) cfgs) \<and>
     h' = h\<lparr>ldapAuthenticators := ldapAuthenticators h'\<rparr>"
proof (induction cfgs arbitrary: h)
  case Nil
  then show ?case by simp
next
  case (Cons p cfgs)
  let ?pid = "strings_ToLower L (URL p)"
  from Cons.prems have fresh: "ldapAuthenticators h ?pid = None"
    by (simp add: Let_def split: if_splits)
  from Cons.prems fresh obtain a where
    rec: "setupLdap L cfgs (h\<lparr>ldapAuthenticators := (ldapAuthenticators h)(?pid \<mapsto> a)\<rparr>) = (h', None)"
    by (simp add: Let_def split: sum.splits)
  from Cons.IH [OF rec] fresh show ?case
    by (auto simp add: domIff)
qed

lemma ldapStep_simps:
  "fst (ldapStep L p) = strings_ToLower L (URL p)"
  "snd (ldapStep L p) = NewLdapAuthenticator L p"
  by (simp_all add: ldapStep_def)

lemma setupLdap_completes:
  assumes "\<forall>p\<in>set cfgs. \<not> isl (snd (ldapStep L p))"
      and "distinct (map (\<lambda>p. fst (ldapStep L p)) cfgs)"
      and "set (map (\<lambda>p. fst (ldapStep L p)) cfgs) \<inter> dom (ldapAuthenticators h) = {}"
  shows "\<exists>h'. setupLdap L cfgs h = (h', None)"
  using assms
proof (induction cfgs arbitrary: h)
  case Nil
  then show ?case by simp
next
  case (Cons p cfgs)
  let ?pid = "strings_ToLower L (URL p)"
  from Cons.prems(3) have fresh: "ldapAuthenticators h ?pid = None"
    by (auto simp add: ldapStep_simps domIff)
  from Cons.prems(1) obtain a where a: "snd (ldapStep L p) = Inr a"
    by (cases "snd (ldapStep L p)") auto
  let ?h1 = "h\<lparr>ldapAuthenticators := (ldapAuthenticators h)(?pid \<mapsto> a)\<rparr>"
  have "\<exists>h'. setupLdap L cfgs ?h1 = (h', None)"
  proof (rule Cons.IH)
    show "\<forall>p\<in>set cfgs. \<not> isl (snd (ldapStep L p))" using Cons.prems(1) by simp
    show "distinct (map (\<lambda>p. fst (ldapStep L p)) cfgs)" using Cons.prems(2) by simp
    show "set (map (\<lambda>p. fst (ldapStep L p)) cfgs) \<inter> dom (ldapAuthenticators ?h1) = {}"
      using Cons.prems(2,3) by (auto simp add: ldapStep_simps)
  qed
  with fresh a show ?case
    by (simp add: Let_def ldapStep_simps)
qed

lemma setupLdap_repeat:
  assumes "\<forall>q\<in>set pre. \<not> isl (snd (ldapStep L q))"
      and "distinct (map (\<lambda>q. fst (ldapStep L q)) pre)"
      and "set (map (\<lambda>q. fst (ldapStep L q)) pre) \<inter> dom (ldapAuthenticators h) = {}"
      and "fst (ldapStep L p) \<in>
             set (map (\<lambda>q. fst (ldapStep L q)) pre) \<union> dom (ldapAuthenticators h)"
  shows "\<exists>h'. setupLdap L (pre @ p # post) h =
                (h', Some (already_registered (fst (ldapStep L p))))"
  using assms
proof (induction pre arbitrary: h)
  case Nil
  then have "ldapAuthenticators h (strings_ToLower L (URL p)) \<noteq> None"
    by (auto simp add: ldapStep_simps domIff)
  then show ?case by (simp add: Let_def ldapStep_simps)
next
  case (Cons q pre)
  let ?qid = "strings_ToLower L (URL q)"
  from Cons.prems(3) have fresh: "ldapAuthenticators h ?qid = None"
    by (auto simp add: ldapStep_simps domIff)
  from Cons.prems(1) obtain a where a: "snd (ldapStep L q) = Inr a"
    by (cases "snd (ldapStep L q)") auto
  let ?h1 = "h\<lparr>ldapAuthenticators := (ldapAuthenticators h)(?qid \<mapsto> a)\<rparr>"
  have "\<exists>h'. setupLdap L (pre @ p # post) ?h1 =
               (h', Some (already_registered (fst (ldapStep L p))))"
  proof (rule Cons.IH)
    show "\<forall>q\<in>set pre. \<not> isl (snd (ldapStep L q))" using Cons.prems(1) by simp
    show "distinct (map (\<lambda>q. fst (ldapStep L q)) pre)" using Cons.prems(2) by simp
    show "set (map (\<lambda>q. fst (ldapStep L q)) pre) \<inter> dom (ldapAuthenticators ?h1) = {}"
      using Cons.prems(2,3) by (auto simp add: ldapStep_simps)
    show "fst (ldapStep L p) \<in>
            set (map (\<lambda>q. fst (ldapStep L q)) pre) \<union> dom (ldapAuthenticators ?h1)"
      using Cons.prems(4) by (auto simp add: ldapStep_simps)
  qed
  with fresh a show ?case
    by (simp add: Let_def ldapStep_simps)
qed

text \<open>What a successful setup implies.\<close>

lemma setupAuthProviders_None:
  assumes "setupAuthProviders L h = (h', None)"
      and "oauthAuthenticators h = Map.empty" and "ldapAuthenticators h = Map.empty"
  shows "distinct (oidcIds L (config h) @ plainOauthIds L (config h)) \<and>
         distinct (ldapIds L (config h)) \<and>
         dom (oauthAuthenticators h') = set (oidcIds L (config h) @ plainOauthIds L (config h)) \<and>
         dom (ldapAuthenticators h') = set (ldapIds L (config h)) \<and>
         config h' = config h \<and> session h' = session h \<and> backend h' = backend h"
proof -
  from assms(1) obtain extUrl where
    u: "url_Parse L (ExternalUrl (Core (config h))) = Inr extUrl"
    by (auto simp add: setupAuthProviders_def split: sum.splits)
  obtain h1 r1 where
    s1: "setupOpenIDConnect L extUrl (OpenIDConnect (Auth (config h))) h = (h1, r1)"
    by (cases "setupOpenIDConnect L extUrl (OpenIDConnect (Auth (config h))) h") blast
  from assms(1) u s1 have r1: "r1 = None"
    by (cases r1) (simp_all add: setupAuthProviders_def)
  note n1 = setupOpenIDConnect_None [OF s1 [unfolded r1]]
  from n1 have c1: "config h1 = config h" "session h1 = session h" "backend h1 = backend h"
    "ldapAuthenticators h1 = ldapAuthenticators h"
    by (metis handler.select_convs handler.surjective handler.update_convs)+
  obtain h2 r2 where
    s2: "setupOAuth L extUrl (OAuth (Auth (config h))) h1 = (h2, r2)"
    by (cases "setupOAuth L extUrl (OAuth (Auth (config h))) h1") blast
  from assms(1) u s1 r1 s2 c1(1) have r2: "r2 = None"
    by (cases r2) (simp_all add: setupAuthProviders_def)
  note n2 = setupOAuth_None [OF s2 [unfolded r2]]
  from n2 have c2: "config h2 = config h1" "session h2 = session h1" "backend h2 = backend h1"
    "ldapAuthenticators h2 = ldapAuthenticators h1"
    by (metis handler.select_convs handler.surjective handler.update_convs)+
  from assms(1) u s1 r1 s2 r2 c1(1) c2(1) have
    s3: "setupLdap L (Ldap (Auth (config h))) h2 = (h', None)"
    by (simp add: setupAuthProviders_def)
  note n3 = setupLdap_None [OF s3]
  from n3 have c3: "config h' = config h2" "session h' = session h2" "backend h' = backend h2"
    "oauthAuthenticators h' = oauthAuthenticators h2"
    by (metis handler.select_convs handler.surjective handler.update_convs)+
  from n1 n2 assms(2) have "distinct (oidcIds L (config h) @ plainOauthIds L (config h))"
    by (auto simp add: oidcIds_def plainOauthIds_def)
  moreover from n3 assms(3) c1(4) c2(4) have "distinct (ldapIds L (config h))"
    by (simp add: ldapIds_def)
  moreover from n1 n2 assms(2) c3(4) have
    "dom (oauthAuthenticators h') = set (oidcIds L (config h) @ plainOauthIds L (config h))"
    by (simp add: oidcIds_def plainOauthIds_def)
  moreover from n3 assms(3) c1(4) c2(4) have "dom (ldapAuthenticators h') = set (ldapIds L (config h))"
    by (simp add: ldapIds_def)
  ultimately show ?thesis
    using c1 c2 c3 by simp
qed

lemma map_append_split:
  assumes "map f xs @ map g ys = pre @ s # post"
  shows "(\<exists>xs1 x xs2. xs = xs1 @ x # xs2 \<and> pre = map f xs1 \<and> s = f x) \<or>
         (\<exists>ys1 y ys2. ys = ys1 @ y # ys2 \<and> pre = map f xs @ map g ys1 \<and> s = g y)"
  using assms
proof (induction xs arbitrary: pre)
  case Nil
  then have "map g ys = pre @ s # post" by simp
  then obtain ys1 ys2 where "ys = ys1 @ ys2" "pre = map g ys1" "s # post = map g ys2"
    by (auto simp add: map_eq_append_conv)
  moreover from this(3) obtain y ys3 where "ys2 = y # ys3" "s = g y"
    by (auto simp add: Cons_eq_map_conv)
  ultimately show ?case by auto
next
  case (Cons x xs)
  show ?case
  proof (cases pre)
    case Nil
    with Cons.prems have "s = f x" by simp
    with Nil show ?thesis by (intro disjI1 exI [of _ "[]"]) auto
  next
    case (Cons a pre')
    with Cons.prems have a: "a = f x" and rest: "map f xs @ map g ys = pre' @ s # post"
      by simp_all
    from Cons.IH [OF rest] show ?thesis
    proof
      assume "\<exists>xs1 x' xs2. xs = xs1 @ x' # xs2 \<and> pre' = map f xs1 \<and> s = f x'"
      then obtain xs1 x' xs2 where "xs = xs1 @ x' # xs2" "pre' = map f xs1" "s = f x'" by blast
      with Cons a have "x # xs = (x # xs1) @ x' # xs2 \<and> pre = map f (x # xs1) \<and> s = f x'"
        by simp
      then show ?thesis by blast
    next
      assume "\<exists>ys1 y ys2. ys = ys1 @ y # ys2 \<and> pre' = map f xs @ map g ys1 \<and> s = g y"
      then obtain ys1 y ys2 where "ys = ys1 @ y # ys2" "pre' = map f xs @ map g ys1" "s = g y"
        by blast
      with Cons a have "ys = ys1 @ y # ys2 \<and> pre = map f (x # xs) @ map g ys1 \<and> s = g y"
        by simp
      then show ?thesis by blast
    qed
  qed
qed

lemma oidc_phase_frame:
  assumes "setupOpenIDConnect L e cfgs h = (h1, None)"
  shows "config h1 = config h" "ldapAuthenticators h1 = ldapAuthenticators h"
proof -
  from setupOpenIDConnect_None [OF assms]
  have "h1 = h\<lparr>oauthAuthenticators := oauthAuthenticators h1\<rparr>" by blast
  then show "config h1 = config h" "ldapAuthenticators h1 = ldapAuthenticators h"
    by (metis handler.select_convs handler.surjective handler.update_convs)+
qed

lemma oauth_phase_frame:
  assumes "setupOAuth L e cfgs h = (h1, None)"
  shows "config h1 = config h" "ldapAuthenticators h1 = ldapAuthenticators h"
proof -
  from setupOAuth_None [OF assms]
  have "h1 = h\<lparr>oauthAuthenticators := oauthAuthenticators h1\<rparr>" by blast
  then show "config h1 = config h" "ldapAuthenticators h1 = ldapAuthenticators h"
    by (metis handler.select_convs handler.surjective handler.update_convs)+
qed

text \<open>The first two loops return the duplicate-provider error at the first repeated
  identifier when nothing has failed before it.\<close>

lemma setupAuthProviders_oauth_repeat:
  assumes u: "url_Parse L (ExternalUrl (Core (config h))) = Inr e"
      and d: "oauthSteps L e (config h) = pre @ (pid, res) # post"
      and dist: "distinct (map fst pre)"
      and rep: "pid \<in> set (map fst pre)"
      and ok: "\<forall>s\<in>set pre. \<not> isl (snd s)"
      and empty: "oauthAuthenticators h = Map.empty"
  shows "\<exists>h'. setupAuthProviders L h = (h', Some (already_registered pid))"
proof -
  let ?O = "OpenIDConnect (Auth (config h))" and ?A = "OAuth (Auth (config h))"
  from d have "map (oidcStep L e) ?O @ map (plainOauthStep L e) ?A = pre @ (pid, res) # post"
    by (simp add: oauthSteps_def)
  from map_append_split [OF this] show ?thesis
  proof
    assume "\<exists>xs1 x xs2. ?O = xs1 @ x # xs2 \<and> pre = map (oidcStep L e) xs1 \<and> (pid, res) = oidcStep L e x"
    then obtain O1 p O2 where
      O: "?O = O1 @ p # O2" and pre: "pre = map (oidcStep L e) O1" and p: "(pid, res) = oidcStep L e p"
      by blast
    from p have pid: "fst (oidcStep L e p) = pid" by (metis fst_conv)
    have "\<exists>h'. setupOpenIDConnect L e (O1 @ p # O2) h =
                 (h', Some (already_registered (fst (oidcStep L e p))))"
    proof (rule setupOpenIDConnect_repeat)
      show "\<forall>q\<in>set O1. \<not> isl (snd (oidcStep L e q))" using ok pre by simp
      show "distinct (map (\<lambda>q. fst (oidcStep L e q)) O1)" using dist pre by (simp add: comp_def)
      show "set (map (\<lambda>q. fst (oidcStep L e q)) O1) \<inter> dom (oauthAuthenticators h) = {}"
        using empty by simp
      show "fst (oidcStep L e p) \<in>
              set (map (\<lambda>q. fst (oidcStep L e q)) O1) \<union> dom (oauthAuthenticators h)"
        using rep pre pid by (simp add: comp_def)
    qed
    then obtain h' where
      "setupOpenIDConnect L e ?O h = (h', Some (already_registered pid))"
      unfolding O pid by blast
    with u have "setupAuthProviders L h = (h', Some (already_registered pid))"
      by (simp add: setupAuthProviders_def)
    then show ?thesis by blast
  next
    assume "\<exists>ys1 y ys2. ?A = ys1 @ y # ys2 \<and>
              pre = map (oidcStep L e) ?O @ map (plainOauthStep L e) ys1 \<and>
              (pid, res) = plainOauthStep L e y"
    then obtain A1 p A2 where
      A: "?A = A1 @ p # A2" and
      pre: "pre = map (oidcStep L e) ?O @ map (plainOauthStep L e) A1" and
      p: "(pid, res) = plainOauthStep L e p"
      by blast
    from p have pid: "fst (plainOauthStep L e p) = pid" by (metis fst_conv)
    have "\<exists>h1. setupOpenIDConnect L e ?O h = (h1, None)"
    proof (rule setupOpenIDConnect_completes)
      show "\<forall>p\<in>set ?O. \<not> isl (snd (oidcStep L e p))" using ok pre by simp
      show "distinct (map (\<lambda>p. fst (oidcStep L e p)) ?O)" using dist pre by (simp add: comp_def)
      show "set (map (\<lambda>p. fst (oidcStep L e p)) ?O) \<inter> dom (oauthAuthenticators h) = {}"
        using empty by simp
    qed
    then obtain h1 where s1: "setupOpenIDConnect L e ?O h = (h1, None)" by blast
    from setupOpenIDConnect_None [OF s1] empty have
      d1: "dom (oauthAuthenticators h1) = set (map (\<lambda>p. fst (oidcStep L e p)) ?O)"
      by (simp add: oidcStep_simps)
    note c1 = oidc_phase_frame [OF s1]
    have "\<exists>h'. setupOAuth L e (A1 @ p # A2) h1 =
                 (h', Some (already_registered (fst (plainOauthStep L e p))))"
    proof (rule setupOAuth_repeat)
      show "\<forall>q\<in>set A1. \<not> isl (snd (plainOauthStep L e q))" using ok pre by simp
      show "distinct (map (\<lambda>q. fst (plainOauthStep L e q)) A1)" using dist pre by (simp add: comp_def)
      show "set (map (\<lambda>q. fst (plainOauthStep L e q)) A1) \<inter> dom (oauthAuthenticators h1) = {}"
        using dist pre unfolding d1 by (auto simp add: comp_def)
      show "fst (plainOauthStep L e p) \<in>
              set (map (\<lambda>q. fst (plainOauthStep L e q)) A1) \<union> dom (oauthAuthenticators h1)"
        using rep pre pid unfolding d1 by (auto simp add: comp_def)
    qed
    then obtain h' where
      "setupOAuth L e ?A h1 = (h', Some (already_registered pid))"
      unfolding A pid by blast
    with u s1 c1(1) have "setupAuthProviders L h = (h', Some (already_registered pid))"
      by (simp add: setupAuthProviders_def)
    then show ?thesis by blast
  qed
qed

text \<open>When nothing fails in the first two loops the setup is the LDAP loop, started on
  the handler they leave.\<close>

lemma setupAuthProviders_reaches_ldap:
  assumes u: "url_Parse L (ExternalUrl (Core (config h))) = Inr e"
      and ok: "\<forall>s\<in>set (oauthSteps L e (config h)). \<not> isl (snd s)"
      and dist: "distinct (oidcIds L (config h) @ plainOauthIds L (config h))"
      and empty: "oauthAuthenticators h = Map.empty"
  shows "\<exists>h2. setupAuthProviders L h = setupLdap L (Ldap (Auth (config h))) h2 \<and>
              ldapAuthenticators h2 = ldapAuthenticators h"
proof -
  let ?O = "OpenIDConnect (Auth (config h))" and ?A = "OAuth (Auth (config h))"
  have "\<exists>h1. setupOpenIDConnect L e ?O h = (h1, None)"
  proof (rule setupOpenIDConnect_completes)
    show "\<forall>p\<in>set ?O. \<not> isl (snd (oidcStep L e p))" using ok by (simp add: oauthSteps_def)
    show "distinct (map (\<lambda>p. fst (oidcStep L e p)) ?O)"
      using dist by (simp add: oidcIds_def oidcStep_simps)
    show "set (map (\<lambda>p. fst (oidcStep L e p)) ?O) \<inter> dom (oauthAuthenticators h) = {}"
      using empty by simp
  qed
  then obtain h1 where s1: "setupOpenIDConnect L e ?O h = (h1, None)" by blast
  from setupOpenIDConnect_None [OF s1] empty have
    d1: "dom (oauthAuthenticators h1) = set (oidcIds L (config h))"
    by (simp add: oidcIds_def)
  note c1 = oidc_phase_frame [OF s1]
  have "\<exists>h2. setupOAuth L e ?A h1 = (h2, None)"
  proof (rule setupOAuth_completes)
    show "\<forall>p\<in>set ?A. \<not> isl (snd (plainOauthStep L e p))" using ok by (simp add: oauthSteps_def)
    show "distinct (map (\<lambda>p. fst (plainOauthStep L e p)) ?A)"
      using dist by (simp add: plainOauthIds_def plainOauthStep_simps)
    show "set (map (\<lambda>p. fst (plainOauthStep L e p)) ?A) \<inter> dom (oauthAuthenticators h1) = {}"
      using dist unfolding d1 by (auto simp add: plainOauthIds_def plainOauthStep_simps)
  qed
  then obtain h2 where s2: "setupOAuth L e ?A h1 = (h2, None)" by blast
  note c2 = oauth_phase_frame [OF s2]
  from u s1 s2 c1 c2 have "setupAuthProviders L h = setupLdap L (Ldap (Auth (config h))) h2"
    by (simp add: setupAuthProviders_def)
  with c1 c2 show ?thesis by auto
qed

subsection \<open>Setup of the authenticator registry\<close>

lemma NewHandler_cases:
  assumes "setupAuthProviders L
             \<lparr>config = cfg, session = GinSessionStore ''wgPortalSession'', backend = be,
              oauthAuthenticators = Map.empty, ldapAuthenticators = Map.empty\<rparr> = (h', r)"
  shows "NewHandler L cfg be =
           (case r of
              Some err \<Rightarrow> Inl (WithMessage err ''failed to setup authentication providers'')
            | None \<Rightarrow> Inr h')"
  using assms by (simp add: NewHandler_def Let_def split: option.splits)

lemma NewHandler_Inr:
  assumes "NewHandler L cfg be = Inr h"
  shows "distinct (oidcIds L cfg @ plainOauthIds L cfg) \<and>
         distinct (ldapIds L cfg) \<and>
         dom (oauthAuthenticators h) = set (oidcIds L cfg @ plainOauthIds L cfg) \<and>
         dom (ldapAuthenticators h) = set (ldapIds L cfg) \<and>
         config h = cfg \<and> session h = GinSessionStore ''wgPortalSession'' \<and> backend h = be"
proof -
  let ?h0 = "\<lparr>config = cfg, session = GinSessionStore ''wgPortalSession'', backend = be,
              oauthAuthenticators = Map.empty, ldapAuthenticators = Map.empty\<rparr>"
  obtain h' r where s: "setupAuthProviders L ?h0 = (h', r)"
    by (cases "setupAuthProviders L ?h0") blast
  from NewHandler_cases [OF s] assms have "r = None" and "h' = h"
    by (simp_all split: option.splits)
  with s have "setupAuthProviders L ?h0 = (h, None)" by simp
  from setupAuthProviders_None [OF this] show ?thesis by simp
qed

text \<open>A list of steps with a repeated identifier has a first repetition.\<close>

lemma first_repetition:
  assumes "\<not> distinct (map fst steps)"
  shows "\<exists>pre pid res post. steps = pre @ (pid, res) # post \<and>
           distinct (map fst pre) \<and> pid \<in> set (map fst pre)"
proof -
  from assms obtain xs y ys where
    y: "y \<in> set xs" and xs: "distinct xs" and m: "map fst steps = xs @ y # ys"
    unfolding not_distinct_conv_prefix by blast
  from m obtain pre rest where
    "steps = pre @ rest" "map fst pre = xs" "map fst rest = y # ys"
    by (auto simp add: map_eq_append_conv)
  moreover from this(3) obtain s post where "rest = s # post" "fst s = y"
    by (auto simp add: map_eq_Cons_conv)
  ultimately have "steps = pre @ (fst s, snd s) # post \<and>
                   distinct (map fst pre) \<and> fst s \<in> set (map fst pre)"
    using y xs by (simp add: prod_eq_iff)
  then show ?thesis by blast
qed

lemma steps_ids:
  "map fst (oauthSteps L e cfg) = oidcIds L cfg @ plainOauthIds L cfg"
  "map fst (ldapSteps L cfg) = ldapIds L cfg"
  by (simp_all add: oauthSteps_def ldapSteps_def oidcIds_def plainOauthIds_def ldapIds_def
        oidcStep_simps plainOauthStep_simps ldapStep_simps comp_def)

text \<open>
  C5, as the code has it: when two entries of the OIDC and OAuth lists have the same
  lower-cased provider name, \<open>NewHandler\<close> returns an error and no handler, hence no
  registry at all. The setup returns on the first error it meets. Among the entries, in
  the order of the two loops, there is a first one whose identifier repeats an earlier
  one; the error is the duplicate-provider error naming that identifier when the
  external URL parses and the constructor calls for the entries before it succeed. The
  entry that repeats the identifier is not constructed.
\<close>

theorem duplicate_oauth_provider_fails_setup:
  assumes "\<not> distinct (oidcIds L cfg @ plainOauthIds L cfg)"
  shows "(\<exists>err. NewHandler L cfg be = Inl err) \<and>
         (\<forall>extUrl. \<exists>pre pid res post.
            oauthSteps L extUrl cfg = pre @ (pid, res) # post \<and>
            distinct (map fst pre) \<and> pid \<in> set (map fst pre)) \<and>
         (\<forall>extUrl pre pid res post.
            url_Parse L (ExternalUrl (Core cfg)) = Inr extUrl \<and>
            oauthSteps L extUrl cfg = pre @ (pid, res) # post \<and>
            distinct (map fst pre) \<and> pid \<in> set (map fst pre) \<and>
            (\<forall>s\<in>set pre. \<not> isl (snd s)) \<longrightarrow>
            NewHandler L cfg be =
              Inl (WithMessage (already_registered pid)
                     ''failed to setup authentication providers''))"
proof (intro conjI allI impI)
  show "\<exists>err. NewHandler L cfg be = Inl err"
  proof (cases "NewHandler L cfg be")
    case (Inl err)
    then show ?thesis by blast
  next
    case (Inr h)
    from NewHandler_Inr [OF this] assms show ?thesis by blast
  qed
next
  fix extUrl
  from assms have "\<not> distinct (map fst (oauthSteps L extUrl cfg))"
    unfolding steps_ids .
  then show "\<exists>pre pid res post.
            oauthSteps L extUrl cfg = pre @ (pid, res) # post \<and>
            distinct (map fst pre) \<and> pid \<in> set (map fst pre)"
    by (rule first_repetition)
next
  fix extUrl pre pid res post
  let ?h0 = "\<lparr>config = cfg, session = GinSessionStore ''wgPortalSession'', backend = be,
              oauthAuthenticators = Map.empty, ldapAuthenticators = Map.empty\<rparr>"
  assume k: "url_Parse L (ExternalUrl (Core cfg)) = Inr extUrl \<and>
            oauthSteps L extUrl cfg = pre @ (pid, res) # post \<and>
            distinct (map fst pre) \<and> pid \<in> set (map fst pre) \<and>
            (\<forall>s\<in>set pre. \<not> isl (snd s))"
  have "\<exists>h'. setupAuthProviders L ?h0 = (h', Some (already_registered pid))"
    by (rule setupAuthProviders_oauth_repeat [where e = extUrl and pre = pre and res = res and post = post])
       (use k in simp_all)
  then obtain h' where "setupAuthProviders L ?h0 = (h', Some (already_registered pid))"
    by blast
  from NewHandler_cases [OF this]
  show "NewHandler L cfg be =
          Inl (WithMessage (already_registered pid) ''failed to setup authentication providers'')"
    by simp
qed


lemma example_ids:
  "oidcIds exampleLibrary (exampleAuth oidc oauth ldap) = map asciiToLower oidc"
  "plainOauthIds exampleLibrary (exampleAuth oidc oauth ldap) = map asciiToLower oauth"
  "ldapIds exampleLibrary (exampleAuth oidc oauth ldap) = map asciiToLower ldap"
  by (simp_all add: oidcIds_def plainOauthIds_def ldapIds_def exampleLibrary_def exampleAuth_def
        comp_def)

lemma asciiToLower_examples:
  "asciiToLower ''GitHub'' = ''github''" "asciiToLower ''github'' = ''github''"
  "asciiToLower ''down'' = ''down''" "asciiToLower ''Down'' = ''down''"
  "asciiToLower ''Corp'' = ''corp''" "asciiToLower ''corp'' = ''corp''"
  "asciiToLower ''LDAP://DC1'' = ''ldap://dc1''" "asciiToLower ''ldap://dc1'' = ''ldap://dc1''"
  by (simp_all add: asciiToLower_def)

lemma example_url:
  "url_Parse exampleLibrary (ExternalUrl (Core (exampleAuth oidc oauth ldap))) =
     Inr \<lparr>Scheme = [], Host = ''https://vpn.example.com'', Path = []\<rparr>"
  by (simp add: exampleLibrary_def exampleAuth_def)

theorem duplicate_oauth_provider_fails_setup_witness:
  "\<not> distinct (oidcIds exampleLibrary (exampleAuth [''Down'', ''down''] [] []) @
               plainOauthIds exampleLibrary (exampleAuth [''Down'', ''down''] [] [])) \<and>
   oauthSteps exampleLibrary \<lparr>Scheme = [], Host = ''https://vpn.example.com'', Path = []\<rparr>
       (exampleAuth [''Down'', ''down''] [] []) =
     [(''down'', Inr ''https://vpn.example.com/auth/login/down/callback''),
      (''down'', Inl (New ''connection refused''))] \<and>
   NewHandler exampleLibrary (exampleAuth [''Down'', ''down''] [] []) exampleBackend =
     Inl (WithMessage (already_registered ''down'') ''failed to setup authentication providers'') \<and>
   \<not> distinct (oidcIds exampleLibrary (exampleAuth [''GitHub''] [''github''] []) @
               plainOauthIds exampleLibrary (exampleAuth [''GitHub''] [''github''] [])) \<and>
   NewHandler exampleLibrary (exampleAuth [''GitHub''] [''github''] []) exampleBackend =
     Inl (WithMessage (already_registered ''github'') ''failed to setup authentication providers'')"
proof -
  let ?e = "\<lparr>Scheme = [], Host = ''https://vpn.example.com'', Path = []\<rparr>"
  let ?A = "exampleAuth [''Down'', ''down''] [] []"
  let ?B = "exampleAuth [''GitHub''] [''github''] []"
  have dA: "\<not> distinct (oidcIds exampleLibrary ?A @ plainOauthIds exampleLibrary ?A)"
    by (simp add: example_ids asciiToLower_examples)
  have dB: "\<not> distinct (oidcIds exampleLibrary ?B @ plainOauthIds exampleLibrary ?B)"
    by (simp add: example_ids asciiToLower_examples)
  have sA: "oauthSteps exampleLibrary ?e ?A =
              [(''down'', Inr ''https://vpn.example.com/auth/login/down/callback''),
               (''down'', Inl (New ''connection refused''))]"
    by (simp add: oauthSteps_def oidcStep_def Let_def callbackUrl_def exampleAuth_def
          exampleLibrary_def asciiToLower_examples)
  have sB: "oauthSteps exampleLibrary ?e ?B =
              [(''github'', Inr ''https://vpn.example.com/auth/login/github/callback''),
               (''github'', Inr ''https://vpn.example.com/auth/login/github/callback'')]"
    by (simp add: oauthSteps_def oidcStep_def plainOauthStep_def Let_def callbackUrl_def
          exampleAuth_def exampleLibrary_def asciiToLower_examples)
  have nA: "NewHandler exampleLibrary ?A exampleBackend =
     Inl (WithMessage (already_registered ''down'') ''failed to setup authentication providers'')"
    by (rule duplicate_oauth_provider_fails_setup
               [OF dA, of exampleBackend, THEN conjunct2, THEN conjunct2, rule_format,
                of ?e "[(''down'', Inr ''https://vpn.example.com/auth/login/down/callback'')]"
                   "''down''" "Inl (New ''connection refused'')" "[]"])
       (simp add: example_url sA)
  have nB: "NewHandler exampleLibrary ?B exampleBackend =
     Inl (WithMessage (already_registered ''github'') ''failed to setup authentication providers'')"
    by (rule duplicate_oauth_provider_fails_setup
               [OF dB, of exampleBackend, THEN conjunct2, THEN conjunct2, rule_format,
                of ?e "[(''github'', Inr ''https://vpn.example.com/auth/login/github/callback'')]"
                   "''github''" "Inr ''https://vpn.example.com/auth/login/github/callback''" "[]"])
       (simp add: example_url sB)
  from dA dB sA nA nB show ?thesis by simp
qed

text \<open>Without the proviso on the entries before the repetition the error need not be the duplicate-provider error: the first
  of two OIDC entries with the same lower-cased name cannot be constructed, and the setup
  returns with the error of the constructor.\<close>

theorem duplicate_oauth_provider_counterexample:
  "\<not> distinct (oidcIds exampleLibrary (exampleAuth [''down'', ''Down''] [] []) @
               plainOauthIds exampleLibrary (exampleAuth [''down'', ''Down''] [] [])) \<and>
   NewHandler exampleLibrary (exampleAuth [''down'', ''Down''] [] []) exampleBackend =
     Inl (WithMessage
            (WithMessage (New ''connection refused'')
               ''failed to setup oidc authentication provider down'')
            ''failed to setup authentication providers'') \<and>
   NewHandler exampleLibrary (exampleAuth [''down'', ''Down''] [] []) exampleBackend \<noteq>
     Inl (WithMessage (already_registered ''down'') ''failed to setup authentication providers'')"
proof -
  have "oidcIds exampleLibrary (exampleAuth [''down'', ''Down''] [] []) @
        plainOauthIds exampleLibrary (exampleAuth [''down'', ''Down''] [] []) = [''down'', ''down'']"
    by (simp add: example_ids asciiToLower_examples)
  moreover have "NewHandler exampleLibrary (exampleAuth [''down'', ''Down''] [] []) exampleBackend =
     Inl (WithMessage
            (WithMessage (New ''connection refused'')
               ''failed to setup oidc authentication provider down'')
            ''failed to setup authentication providers'')"
    by (simp add: NewHandler_def setupAuthProviders_def Let_def exampleLibrary_def exampleAuth_def
          asciiToLower_examples)
  ultimately show ?thesis by (simp add: already_registered_def)
qed

text \<open>
  C7, as the code has it: LDAP providers are registered under the lower-cased URL, in a
  map of their own. Two LDAP entries with the same lower-cased URL make \<open>NewHandler\<close>
  return an error and no handler; among the LDAP entries there is then a first one whose
  identifier repeats an earlier one. The setup returns on the first error it meets: when
  the external URL parses and the OIDC and OAuth loops run through (distinct
  identifiers, every constructor call successful), the error is the duplicate-provider
  error, naming that identifier, if the constructor calls for the LDAP entries before
  the repetition succeed; and when the LDAP identifiers are distinct and the LDAP
  constructor calls succeed, the setup succeeds with every provider registered, whether
  or not an LDAP identifier equals an OIDC or OAuth identifier.
\<close>

theorem ldap_duplicates_in_own_namespace:
  "(\<not> distinct (ldapIds L cfg) \<longrightarrow>
      (\<exists>err. NewHandler L cfg be = Inl err) \<and>
      (\<exists>pre pid res post.
         ldapSteps L cfg = pre @ (pid, res) # post \<and>
         distinct (map fst pre) \<and> pid \<in> set (map fst pre))) \<and>
   (\<forall>extUrl.
      url_Parse L (ExternalUrl (Core cfg)) = Inr extUrl \<and>
      distinct (oidcIds L cfg @ plainOauthIds L cfg) \<and>
      (\<forall>s\<in>set (oauthSteps L extUrl cfg). \<not> isl (snd s)) \<longrightarrow>
      (\<forall>pre pid res post.
         ldapSteps L cfg = pre @ (pid, res) # post \<and>
         distinct (map fst pre) \<and> pid \<in> set (map fst pre) \<and>
         (\<forall>s\<in>set pre. \<not> isl (snd s)) \<longrightarrow>
         NewHandler L cfg be =
           Inl (WithMessage (already_registered pid)
                  ''failed to setup authentication providers'')) \<and>
      (distinct (ldapIds L cfg) \<and> (\<forall>s\<in>set (ldapSteps L cfg). \<not> isl (snd s)) \<longrightarrow>
         (\<exists>h. NewHandler L cfg be = Inr h \<and>
              dom (oauthAuthenticators h) = set (oidcIds L cfg @ plainOauthIds L cfg) \<and>
              dom (ldapAuthenticators h) = set (ldapIds L cfg))))"
proof (intro conjI allI impI)
  assume dup: "\<not> distinct (ldapIds L cfg)"
  show "\<exists>err. NewHandler L cfg be = Inl err"
  proof (cases "NewHandler L cfg be")
    case (Inl err)
    then show ?thesis by blast
  next
    case (Inr h)
    from NewHandler_Inr [OF this] dup show ?thesis by blast
  qed
next
  assume "\<not> distinct (ldapIds L cfg)"
  then have "\<not> distinct (map fst (ldapSteps L cfg))"
    unfolding steps_ids .
  then show "\<exists>pre pid res post.
         ldapSteps L cfg = pre @ (pid, res) # post \<and>
         distinct (map fst pre) \<and> pid \<in> set (map fst pre)"
    by (rule first_repetition)
next
  fix extUrl pre pid res post
  let ?h0 = "\<lparr>config = cfg, session = GinSessionStore ''wgPortalSession'', backend = be,
              oauthAuthenticators = Map.empty, ldapAuthenticators = Map.empty\<rparr>"
  assume k: "url_Parse L (ExternalUrl (Core cfg)) = Inr extUrl \<and>
      distinct (oidcIds L cfg @ plainOauthIds L cfg) \<and>
      (\<forall>s\<in>set (oauthSteps L extUrl cfg). \<not> isl (snd s))"
  assume r: "ldapSteps L cfg = pre @ (pid, res) # post \<and>
         distinct (map fst pre) \<and> pid \<in> set (map fst pre) \<and>
         (\<forall>s\<in>set pre. \<not> isl (snd s))"
  from setupAuthProviders_reaches_ldap [where L = L and h = ?h0 and e = extUrl] k
  obtain h2 where
    s: "setupAuthProviders L ?h0 = setupLdap L (Ldap (Auth cfg)) h2" and
    e: "ldapAuthenticators h2 = Map.empty"
    by auto
  from r have "map (ldapStep L) (Ldap (Auth cfg)) = pre @ (pid, res) # post"
    by (simp add: ldapSteps_def)
  then obtain P1 p P2 where
    P: "Ldap (Auth cfg) = P1 @ p # P2" and pre: "pre = map (ldapStep L) P1" and
    p: "(pid, res) = ldapStep L p"
    by (auto simp add: map_eq_append_conv Cons_eq_map_conv)
  from p have pid: "fst (ldapStep L p) = pid" by (metis fst_conv)
  have "\<exists>h'. setupLdap L (P1 @ p # P2) h2 = (h', Some (already_registered (fst (ldapStep L p))))"
  proof (rule setupLdap_repeat)
    show "\<forall>q\<in>set P1. \<not> isl (snd (ldapStep L q))" using r pre by simp
    show "distinct (map (\<lambda>q. fst (ldapStep L q)) P1)" using r pre by (simp add: comp_def)
    show "set (map (\<lambda>q. fst (ldapStep L q)) P1) \<inter> dom (ldapAuthenticators h2) = {}"
      using e by simp
    show "fst (ldapStep L p) \<in> set (map (\<lambda>q. fst (ldapStep L q)) P1) \<union> dom (ldapAuthenticators h2)"
      using r pre pid by (simp add: comp_def)
  qed
  then obtain h' where "setupAuthProviders L ?h0 = (h', Some (already_registered pid))"
    unfolding s P pid by blast
  from NewHandler_cases [OF this]
  show "NewHandler L cfg be =
          Inl (WithMessage (already_registered pid) ''failed to setup authentication providers'')"
    by simp
next
  fix extUrl
  let ?h0 = "\<lparr>config = cfg, session = GinSessionStore ''wgPortalSession'', backend = be,
              oauthAuthenticators = Map.empty, ldapAuthenticators = Map.empty\<rparr>"
  assume k: "url_Parse L (ExternalUrl (Core cfg)) = Inr extUrl \<and>
      distinct (oidcIds L cfg @ plainOauthIds L cfg) \<and>
      (\<forall>s\<in>set (oauthSteps L extUrl cfg). \<not> isl (snd s))"
  assume d: "distinct (ldapIds L cfg) \<and> (\<forall>s\<in>set (ldapSteps L cfg). \<not> isl (snd s))"
  from setupAuthProviders_reaches_ldap [where L = L and h = ?h0 and e = extUrl] k
  obtain h2 where
    s: "setupAuthProviders L ?h0 = setupLdap L (Ldap (Auth cfg)) h2" and
    e: "ldapAuthenticators h2 = Map.empty"
    by auto
  have "\<exists>h'. setupLdap L (Ldap (Auth cfg)) h2 = (h', None)"
  proof (rule setupLdap_completes)
    show "\<forall>p\<in>set (Ldap (Auth cfg)). \<not> isl (snd (ldapStep L p))"
      using d by (simp add: ldapSteps_def)
    show "distinct (map (\<lambda>p. fst (ldapStep L p)) (Ldap (Auth cfg)))"
      using d by (simp add: ldapIds_def ldapStep_simps)
    show "set (map (\<lambda>p. fst (ldapStep L p)) (Ldap (Auth cfg))) \<inter> dom (ldapAuthenticators h2) = {}"
      using e by simp
  qed
  then obtain h' where "setupAuthProviders L ?h0 = (h', None)"
    unfolding s by blast
  from NewHandler_cases [OF this] have n: "NewHandler L cfg be = Inr h'" by simp
  from NewHandler_Inr [OF n] n
  show "\<exists>h. NewHandler L cfg be = Inr h \<and>
            dom (oauthAuthenticators h) = set (oidcIds L cfg @ plainOauthIds L cfg) \<and>
            dom (ldapAuthenticators h) = set (ldapIds L cfg)"
    by blast
qed

theorem ldap_duplicates_in_own_namespace_witness:
  "oidcIds exampleLibrary (exampleAuth [''Corp''] [] [''corp'', ''ldap://dc1'']) = [''corp''] \<and>
   ldapIds exampleLibrary (exampleAuth [''Corp''] [] [''corp'', ''ldap://dc1'']) = [''corp'', ''ldap://dc1''] \<and>
   (\<exists>h. NewHandler exampleLibrary (exampleAuth [''Corp''] [] [''corp'', ''ldap://dc1'']) exampleBackend = Inr h \<and>
        dom (oauthAuthenticators h) = {''corp''} \<and>
        dom (ldapAuthenticators h) = {''corp'', ''ldap://dc1''}) \<and>
   ldapSteps exampleLibrary (exampleAuth [''Corp''] [] [''Down'', ''down'']) =
     [(''down'', Inr ''Down''), (''down'', Inl (New ''connection refused''))] \<and>
   NewHandler exampleLibrary (exampleAuth [''Corp''] [] [''Down'', ''down'']) exampleBackend =
     Inl (WithMessage (already_registered ''down'') ''failed to setup authentication providers'')"
proof -
  let ?e = "\<lparr>Scheme = [], Host = ''https://vpn.example.com'', Path = []\<rparr>"
  let ?A = "exampleAuth [''Corp''] [] [''corp'', ''ldap://dc1'']"
  let ?B = "exampleAuth [''Corp''] [] [''Down'', ''down'']"
  have idsA: "oidcIds exampleLibrary ?A = [''corp'']" "plainOauthIds exampleLibrary ?A = []"
             "ldapIds exampleLibrary ?A = [''corp'', ''ldap://dc1'']"
    by (simp_all add: example_ids asciiToLower_examples)
  have idsB: "oidcIds exampleLibrary ?B = [''corp'']" "plainOauthIds exampleLibrary ?B = []"
    by (simp_all add: example_ids asciiToLower_examples)
  have oA: "oauthSteps exampleLibrary ?e ?A =
              [(''corp'', Inr ''https://vpn.example.com/auth/login/corp/callback'')]"
    by (simp add: oauthSteps_def oidcStep_def Let_def callbackUrl_def exampleAuth_def
          exampleLibrary_def asciiToLower_examples)
  have oB: "oauthSteps exampleLibrary ?e ?B =
              [(''corp'', Inr ''https://vpn.example.com/auth/login/corp/callback'')]"
    by (simp add: oauthSteps_def oidcStep_def Let_def callbackUrl_def exampleAuth_def
          exampleLibrary_def asciiToLower_examples)
  have lA: "ldapSteps exampleLibrary ?A = [(''corp'', Inr ''corp''), (''ldap://dc1'', Inr ''ldap://dc1'')]"
    by (simp add: ldapSteps_def ldapStep_def exampleAuth_def exampleLibrary_def asciiToLower_examples)
  have lB: "ldapSteps exampleLibrary ?B = [(''down'', Inr ''Down''), (''down'', Inl (New ''connection refused''))]"
    by (simp add: ldapSteps_def ldapStep_def exampleAuth_def exampleLibrary_def asciiToLower_examples)
  note tA = ldap_duplicates_in_own_namespace
              [of exampleLibrary ?A exampleBackend, THEN conjunct2, rule_format, of ?e, THEN conjunct2, rule_format]
  have a: "\<exists>h. NewHandler exampleLibrary ?A exampleBackend = Inr h \<and>
        dom (oauthAuthenticators h) = {''corp''} \<and>
        dom (ldapAuthenticators h) = {''corp'', ''ldap://dc1''}"
    using tA by (simp add: example_url idsA oA lA)
  note tB = ldap_duplicates_in_own_namespace
              [of exampleLibrary ?B exampleBackend, THEN conjunct2, rule_format, of ?e, THEN conjunct1, rule_format,
               of "[(''down'', Inr ''Down'')]" "''down''" "Inl (New ''connection refused'')" "[]"]
  have b: "NewHandler exampleLibrary ?B exampleBackend =
     Inl (WithMessage (already_registered ''down'') ''failed to setup authentication providers'')"
    by (rule tB) (simp_all add: example_url idsB oB lB)
  from idsA a lB b show ?thesis by simp
qed

text \<open>Without the proviso on the entries before the repetition the error need not be the duplicate-provider error: the first
  of two LDAP entries with the same lower-cased URL cannot be constructed, and the setup
  returns with the error of the constructor.\<close>

theorem ldap_duplicates_counterexample:
  "\<not> distinct (ldapIds exampleLibrary (exampleAuth [] [] [''down'', ''Down''])) \<and>
   NewHandler exampleLibrary (exampleAuth [] [] [''down'', ''Down'']) exampleBackend =
     Inl (WithMessage
            (WithMessage (New ''connection refused'')
               ''failed to setup ldap authentication provider down'')
            ''failed to setup authentication providers'') \<and>
   NewHandler exampleLibrary (exampleAuth [] [] [''down'', ''Down'']) exampleBackend \<noteq>
     Inl (WithMessage (already_registered ''down'') ''failed to setup authentication providers'')"
proof -
  have "ldapIds exampleLibrary (exampleAuth [] [] [''down'', ''Down'']) = [''down'', ''down'']"
    by (simp add: example_ids asciiToLower_examples)
  moreover have "NewHandler exampleLibrary (exampleAuth [] [] [''down'', ''Down'']) exampleBackend =
     Inl (WithMessage
            (WithMessage (New ''connection refused'')
               ''failed to setup ldap authentication provider down'')
            ''failed to setup authentication providers'')"
    by (simp add: NewHandler_def setupAuthProviders_def Let_def exampleLibrary_def exampleAuth_def
          asciiToLower_examples)
  ultimately show ?thesis by (simp add: already_registered_def)
qed

end
